theory Spec2Isabelle
  imports Complex_Main "HOL-Library.Word" "HOL-Library.Char_ord" "HOL-Library.List_Lexorder"
    "HOL-Library.Log_Nat"
begin

section \<open>Shipping-label formatter: the image-normalisation core\<close>

text \<open>
  The definitions below embed the TypeScript core of the repository (the module that
  exports \<open>loadImage\<close>, \<open>autoCropLabel\<close>, \<open>resizeImage\<close>, \<open>resizeLabel\<close> and
  \<open>resizeLabelFromBuffers\<close>), the extension check of its web route, and two pieces of the
  Swift port (\<open>generate2UpPDF\<close> and the luminance of \<open>autoCrop\<close>). The image library
  (sharp), the PDF library (pdf-lib) and Node's \<open>path\<close> module are not part of the
  repository; the few facts about them that the code depends on are written out where
  they are used.
\<close>

subsection \<open>JavaScript numbers and errors\<close>

text \<open>
  A JavaScript number is an IEEE-754 double: a finite value, which is a rational number,
  one of the two infinities, or \<open>NaN\<close> (the value of \<open>undefined * dpi\<close> and of a failed
  \<open>parseInt\<close>). The sign of zero is not modelled. The functions \<open>js_mul\<close>, \<open>js_add\<close>,
  \<open>js_sub\<close> and \<open>js_half\<close> give the exact result on finite operands; the rounding of an
  exact result to the nearest double is the separate function \<open>js_double\<close> below, which
  \<open>resizeImage\<close> applies to each of its products. The page arithmetic of \<open>buildPdf2Up\<close>
  is kept exact: for the four sizes of the catalogue every value it computes is a double.
\<close>

datatype jsnum = Num rat | NaN | Infinity | NegInfinity

fun js_mul :: "jsnum \<Rightarrow> jsnum \<Rightarrow> jsnum" where
  "js_mul (Num a) (Num b) = Num (a * b)"
| "js_mul NaN _ = NaN"
| "js_mul _ NaN = NaN"
| "js_mul (Num a) Infinity = (if a = 0 then NaN else if 0 < a then Infinity else NegInfinity)"
| "js_mul (Num a) NegInfinity = (if a = 0 then NaN else if 0 < a then NegInfinity else Infinity)"
| "js_mul Infinity (Num b) = (if b = 0 then NaN else if 0 < b then Infinity else NegInfinity)"
| "js_mul NegInfinity (Num b) = (if b = 0 then NaN else if 0 < b then NegInfinity else Infinity)"
| "js_mul Infinity Infinity = Infinity"
| "js_mul Infinity NegInfinity = NegInfinity"
| "js_mul NegInfinity Infinity = NegInfinity"
| "js_mul NegInfinity NegInfinity = Infinity"

fun js_add :: "jsnum \<Rightarrow> jsnum \<Rightarrow> jsnum" where
  "js_add (Num a) (Num b) = Num (a + b)"
| "js_add NaN _ = NaN"
| "js_add _ NaN = NaN"
| "js_add Infinity NegInfinity = NaN"
| "js_add NegInfinity Infinity = NaN"
| "js_add Infinity _ = Infinity"
| "js_add NegInfinity _ = NegInfinity"
| "js_add (Num a) Infinity = Infinity"
| "js_add (Num a) NegInfinity = NegInfinity"

fun js_sub :: "jsnum \<Rightarrow> jsnum \<Rightarrow> jsnum" where
  "js_sub (Num a) (Num b) = Num (a - b)"
| "js_sub NaN _ = NaN"
| "js_sub _ NaN = NaN"
| "js_sub Infinity Infinity = NaN"
| "js_sub NegInfinity NegInfinity = NaN"
| "js_sub Infinity _ = Infinity"
| "js_sub NegInfinity _ = NegInfinity"
| "js_sub (Num a) Infinity = NegInfinity"
| "js_sub (Num a) NegInfinity = Infinity"

text \<open>Division by the literal 2, the only division of the core.\<close>

fun js_half :: "jsnum \<Rightarrow> jsnum" where
  "js_half (Num a) = Num (a / 2)"
| "js_half NaN = NaN"
| "js_half Infinity = Infinity"
| "js_half NegInfinity = NegInfinity"

text \<open>
  \<open>Math.round\<close>: the nearest integer, a tie going up. On a double the result is exact
  (a double of magnitude \<open>2\<^sup>5\<^sup>2\<close> or more is an integer already).
\<close>

fun Math_round :: "jsnum \<Rightarrow> jsnum" where
  "Math_round (Num a) = Num (of_int \<lfloor>a + 1 / 2\<rfloor>)"
| "Math_round NaN = NaN"
| "Math_round Infinity = Infinity"
| "Math_round NegInfinity = NegInfinity"

text \<open>
  Rounding to the nearest double, ties to even, which is what every arithmetic operation
  of the language does to its exact result. \<open>round_half_even\<close> is the nearest integer, a
  tie going to the even one. \<open>binary_exponent a\<close>, for \<open>a > 0\<close>, is the \<open>e\<close> with
  \<open>2\<^sup>e \<le> a < 2\<^sup>e\<^sup>+\<^sup>1\<close>. A double with exponent \<open>e\<close> is a multiple of \<open>2\<^sup>e\<^sup>-\<^sup>5\<^sup>2\<close>; below
  \<open>2\<^sup>-\<^sup>1\<^sup>0\<^sup>2\<^sup>2\<close> (the subnormal range) the spacing stays \<open>2\<^sup>-\<^sup>1\<^sup>0\<^sup>7\<^sup>4\<close>, and a result that
  rounds to \<open>2\<^sup>1\<^sup>0\<^sup>2\<^sup>4\<close> overflows to an infinity.
\<close>

definition round_half_even :: "rat \<Rightarrow> int" where
  "round_half_even y =
     (let f = \<lfloor>y\<rfloor>; r = y - of_int f
      in if r < 1 / 2 then f else if 1 / 2 < r then f + 1 else if even f then f else f + 1)"

definition binary_exponent :: "rat \<Rightarrow> int" where
  "binary_exponent a =
     (let k = bitlen (fst (quotient_of a)) - bitlen (snd (quotient_of a))
      in if 2 powi k \<le> a then k else k - 1)"

definition to_double :: "rat \<Rightarrow> jsnum" where
  "to_double x =
     (if x = 0 then Num 0
      else
        let a = \<bar>x\<bar>;
            e = max (binary_exponent a) (- 1022);
            q = 2 powi (e - 52);
            r = of_int (round_half_even (a / q)) * q
        in if of_int (2 ^ 1024) \<le> r then (if 0 < x then Infinity else NegInfinity)
           else Num (if 0 < x then r else - r))"

fun js_double :: "jsnum \<Rightarrow> jsnum" where
  "js_double (Num a) = to_double a"
| "js_double NaN = NaN"
| "js_double Infinity = Infinity"
| "js_double NegInfinity = NegInfinity"

text \<open>
  The finite values that a number of the program can have are the rationals that this
  rounding leaves unchanged. A decimal literal of the source denotes the double nearest
  to it: \<open>0.7\<close> is \<open>to_double (7 / 10)\<close>, which is not \<open>7 / 10\<close>.
\<close>

definition is_double :: "rat \<Rightarrow> bool" where
  "is_double x \<longleftrightarrow> to_double x = Num x"

text \<open>
  Every failure of the core is a JavaScript \<open>Error\<close> carrying a message. The two errors
  of the image library that the core can provoke are kept apart from the core's own.
\<close>

datatype error =
    Error string
  | SharpInvalidParameter string jsnum
  | SharpBadExtractArea

subsection \<open>Auto-crop\<close>

text \<open>
  \<open>autoCropLabel\<close> reads the image through \<open>metadata()\<close> (width and height) and the raw
  single-channel data \<open>gray\<close>, a byte buffer indexed \<open>gray[y * width + x]\<close>. A read past
  the end of a JavaScript buffer is \<open>undefined\<close>, and \<open>undefined < n\<close> is false.
\<close>

record image =
  width :: nat
  height :: nat
  gray :: "8 word list"

definition gray_at :: "image \<Rightarrow> nat \<Rightarrow> 8 word option" where
  "gray_at img i = (if i < length (gray img) then Some (gray img ! i) else None)"

definition is_dark :: "nat \<Rightarrow> image \<Rightarrow> nat \<Rightarrow> bool" where
  \<comment> \<open>\<open>gray[i] < borderThreshold\<close>\<close>
  "is_dark borderThreshold img i =
     (case gray_at img i of None \<Rightarrow> False | Some v \<Rightarrow> unat v < borderThreshold)"

record bbox =
  bx0 :: nat
  by0 :: nat
  bx1 :: nat
  by1 :: nat
  found :: bool

definition bbox_pixel :: "nat \<Rightarrow> image \<Rightarrow> nat \<Rightarrow> nat \<Rightarrow> bbox \<Rightarrow> bbox" where
  \<comment> \<open>the body of the inner loop of the bounding-box search\<close>
  "bbox_pixel borderThreshold img y x b =
     (if is_dark borderThreshold img (y * width img + x)
      then \<lparr> bx0 = (if x < bx0 b then x else bx0 b),
             by0 = (if y < by0 b then y else by0 b),
             bx1 = (if x + 1 > bx1 b then x + 1 else bx1 b),
             by1 = (if y + 1 > by1 b then y + 1 else by1 b),
             found = True \<rparr>
      else b)"

definition find_bbox :: "nat \<Rightarrow> image \<Rightarrow> bbox" where
  \<comment> \<open>\<open>for y in 0..height-1: for x in 0..width-1: ...\<close>\<close>
  "find_bbox borderThreshold img =
     fold (\<lambda>y. fold (bbox_pixel borderThreshold img y) [0..<width img]) [0..<height img]
       \<lparr> bx0 = width img, by0 = height img, bx1 = 0, by1 = 0, found = False \<rparr>"

definition rowIsBorder :: "nat \<Rightarrow> image \<Rightarrow> nat \<Rightarrow> nat \<Rightarrow> nat \<Rightarrow> bool" where
  "rowIsBorder borderThreshold img ry x0 x1 =
     (let dark = length (filter (\<lambda>x. is_dark borderThreshold img (ry * width img + x)) [x0..<x1]);
          len = x1 - x0
      in rat_of_nat len * (1 / 2) < rat_of_nat dark)"

definition colIsBorder :: "nat \<Rightarrow> image \<Rightarrow> nat \<Rightarrow> nat \<Rightarrow> nat \<Rightarrow> bool" where
  "colIsBorder borderThreshold img cx y0 y1 =
     (let dark = length (filter (\<lambda>y. is_dark borderThreshold img (y * width img + cx)) [y0..<y1]);
          len = y1 - y0
      in rat_of_nat len * (1 / 2) < rat_of_nat dark)"

text \<open>
  The four edges after the inward scan. A \<open>for\<close> loop that leaves at the first line that
  is not a border line is \<open>find\<close> over the indices the loop visits, in the loop's order:
  the loops from the top and from the left visit \<open>by0, ..., by0 + scanH - 1\<close>; the loops
  from the bottom and from the right start at \<open>by1 - 1\<close> and run while
  \<open>y > by1 - scanH\<close>, that is over \<open>by1 - 1, ..., by1 - scanH + 1\<close>
  (\<open>scanH \<le> by1\<close> always, so the natural-number subtraction is exact).
\<close>

record edges =
  edge_left :: nat
  edge_top :: nat
  edge_right :: nat
  edge_bottom :: nat

definition scan_limit :: "nat \<Rightarrow> nat" where
  \<comment> \<open>\<open>Math.min(Math.floor(box / 2), 100)\<close>\<close>
  "scan_limit box = min (box div 2) 100"

definition scan_inward :: "nat \<Rightarrow> image \<Rightarrow> bbox \<Rightarrow> edges" where
  "scan_inward borderThreshold img b =
     (let boxW = bx1 b - bx0 b;
          boxH = by1 b - by0 b;
          scanH = scan_limit boxH;
          t = (case find (\<lambda>y. \<not> rowIsBorder borderThreshold img y (bx0 b) (bx1 b))
                      [by0 b ..< by0 b + scanH] of
                 Some y \<Rightarrow> y | None \<Rightarrow> by0 b);
          bt = (case find (\<lambda>y. \<not> rowIsBorder borderThreshold img y (bx0 b) (bx1 b))
                      (rev [Suc (by1 b - scanH) ..< by1 b]) of
                 Some y \<Rightarrow> y + 1 | None \<Rightarrow> by1 b);
          scanW = scan_limit boxW;
          l = (case find (\<lambda>x. \<not> colIsBorder borderThreshold img x (by0 b) (by1 b))
                      [bx0 b ..< bx0 b + scanW] of
                 Some x \<Rightarrow> x | None \<Rightarrow> bx0 b);
          r = (case find (\<lambda>x. \<not> colIsBorder borderThreshold img x (by0 b) (by1 b))
                      (rev [Suc (bx1 b - scanW) ..< bx1 b]) of
                 Some x \<Rightarrow> x + 1 | None \<Rightarrow> bx1 b)
      in \<lparr> edge_left = l, edge_top = t, edge_right = r, edge_bottom = bt \<rparr>)"

text \<open>
  The padded rectangle handed to \<open>extract\<close> as
  \<open>{left, top, width: right - left, height: bottom - top}\<close>.
\<close>

record rect =
  rect_left :: int
  rect_top :: int
  rect_right :: int
  rect_bottom :: int

definition pad :: int where
  "pad = 8"

definition expand :: "image \<Rightarrow> edges \<Rightarrow> rect" where
  "expand img e =
     \<lparr> rect_left = max (int (edge_left e) - pad) 0,
       rect_top = max (int (edge_top e) - pad) 0,
       rect_right = min (int (edge_right e) + pad) (int (width img)),
       rect_bottom = min (int (edge_bottom e) + pad) (int (height img)) \<rparr>"

text \<open>
  The result is either the input buffer itself (\<open>return imageBuffer\<close>) or the new buffer
  that \<open>extract\<close> produced for a rectangle. The image library rejects an extract region
  that is empty or leaves the image.

  The code compares in doubles; the model compares the same quantities exactly.
  \<open>len * 0.5\<close> is exact in doubles. \<open>width * height * 0.05\<close> is not, but the double
  nearest to 0.05 is \<^verbatim>\<open>(1 + 2^(-54)) / 20\<close>, so for an image area \<open>n\<close> below
  \<^verbatim>\<open>2^52\<close> the rounded product is \<open>n / 20\<close> itself when that is an integer and
  otherwise lies strictly between the same two integers as \<open>n / 20\<close>: the comparison
  with the integer \<open>boxW * boxH\<close> comes out the same.
\<close>

datatype crop_result = NoCropNeeded | Crop rect

definition sharp_extract :: "image \<Rightarrow> rect \<Rightarrow> error + crop_result" where
  "sharp_extract img r =
     (let w = rect_right r - rect_left r; h = rect_bottom r - rect_top r
      in if 0 \<le> rect_left r \<and> 0 \<le> rect_top r \<and> 0 < w \<and> 0 < h
            \<and> rect_left r + w \<le> int (width img) \<and> rect_top r + h \<le> int (height img)
         then Inr (Crop r) else Inl SharpBadExtractArea)"

definition autoCropLabel :: "image \<Rightarrow> nat \<Rightarrow> rat \<Rightarrow> error + crop_result" where
  "autoCropLabel img borderThreshold minAreaRatio =
     (let b = find_bbox borderThreshold img in
      if \<not> found b then Inr NoCropNeeded
      else
        let boxW = bx1 b - bx0 b; boxH = by1 b - by0 b in
        if rat_of_nat (boxW * boxH) < rat_of_nat (width img * height img) * minAreaRatio
        then Inr NoCropNeeded
        else sharp_extract img (expand img (scan_inward borderThreshold img b)))"

text \<open>The call of the pipeline, \<open>autoCropLabel(buf)\<close>, with the default parameters.\<close>

definition borderThreshold_default :: nat where
  "borderThreshold_default = 80"

definition minAreaRatio_default :: rat where
  "minAreaRatio_default = 5 / 100"

definition detectCrop :: "image \<Rightarrow> error + crop_result" where
  "detectCrop img = autoCropLabel img borderThreshold_default minAreaRatio_default"

text \<open>
  The Swift port \<open>autoCrop\<close> computes the luminance of every pixel itself, from the
  red, green and blue bytes, in \<open>UInt16\<close>:
  \<^verbatim>\<open>UInt8((r * 299 + g * 587 + b * 114) / 1000)\<close>.
  Swift's \<open>*\<close> and \<open>+\<close> trap on overflow, and so does the conversion to \<open>UInt8\<close>;
  \<open>None\<close> is the trap.
\<close>

definition u16_mul :: "16 word \<Rightarrow> 16 word \<Rightarrow> 16 word option" where
  "u16_mul a b = (if unat a * unat b < 2 ^ 16 then Some (a * b) else None)"

definition u16_add :: "16 word \<Rightarrow> 16 word \<Rightarrow> 16 word option" where
  "u16_add a b = (if unat a + unat b < 2 ^ 16 then Some (a + b) else None)"

definition brightness :: "8 word \<Rightarrow> 8 word \<Rightarrow> 8 word \<Rightarrow> 8 word option" where
  "brightness r g b =
     (case u16_mul (ucast r) 299 of
        None \<Rightarrow> None
      | Some x \<Rightarrow>
          (case u16_mul (ucast g) 587 of
             None \<Rightarrow> None
           | Some y \<Rightarrow>
               (case u16_add x y of
                  None \<Rightarrow> None
                | Some xy \<Rightarrow>
                    (case u16_mul (ucast b) 114 of
                       None \<Rightarrow> None
                     | Some z \<Rightarrow>
                         (case u16_add xy z of
                            None \<Rightarrow> None
                          | Some s \<Rightarrow>
                              if unat (s div 1000) < 2 ^ 8 then Some (ucast (s div 1000))
                              else None)))))"

subsection \<open>Resize\<close>

text \<open>
  \<open>resizeImage\<close> computes the target size, each side the rounded double product of the
  size in inches and the resolution, and hands it to the image library's
  \<open>resize(width, height, {fit})\<close>. The library throws unless the width, then the height,
  is an integer from 1 to 100000000. What the library then does with the buffer (decode,
  resample, flatten onto white, encode as PNG) is not part of the repository and depends
  on the bytes of the buffer and on the memory of the machine: it is the parameter
  \<open>toBuffer\<close>, which gives \<open>None\<close> when the library completes and its error otherwise.
  When it completes, the output has exactly the requested dimensions for the fits
  \<open>fill\<close>, \<open>cover\<close> and \<open>contain\<close>. The pixels of the output are not modelled: the output
  buffer is recorded by its source, its dimensions and the fit that produced it.
\<close>

datatype FitMode = Fit | Fill | Stretch

datatype sharp_fit = SharpFill | SharpCover | SharpContain

record 'b resized =
  source :: 'b
  out_width :: int
  out_height :: int
  out_fit :: sharp_fit

fun valid_dimension :: "jsnum \<Rightarrow> bool" where
  "valid_dimension (Num a) = (of_int \<lfloor>a\<rfloor> = a \<and> 1 \<le> a \<and> a \<le> 100000000)"
| "valid_dimension NaN = False"
| "valid_dimension Infinity = False"
| "valid_dimension NegInfinity = False"

fun js_to_int :: "jsnum \<Rightarrow> int" where
  "js_to_int (Num a) = \<lfloor>a\<rfloor>"
| "js_to_int NaN = 0"
| "js_to_int Infinity = 0"
| "js_to_int NegInfinity = 0"

definition sharp_resize ::
  "('b \<Rightarrow> int \<Rightarrow> int \<Rightarrow> sharp_fit \<Rightarrow> error option) \<Rightarrow>
   'b \<Rightarrow> jsnum \<Rightarrow> jsnum \<Rightarrow> sharp_fit \<Rightarrow> error + 'b resized" where
  "sharp_resize toBuffer buf w h f =
     (if \<not> valid_dimension w then Inl (SharpInvalidParameter ''width'' w)
      else if \<not> valid_dimension h then Inl (SharpInvalidParameter ''height'' h)
      else
        (case toBuffer buf (js_to_int w) (js_to_int h) f of
           Some e \<Rightarrow> Inl e
         | None \<Rightarrow> Inr \<lparr> source = buf, out_width = js_to_int w, out_height = js_to_int h,
                            out_fit = f \<rparr>))"

text \<open>\<open>Math.round(a * dpi)\<close>, the product being the double product.\<close>

definition round_product :: "jsnum \<Rightarrow> jsnum \<Rightarrow> jsnum" where
  "round_product a dpi = Math_round (js_double (js_mul a dpi))"

definition resizeImage ::
  "('b \<Rightarrow> int \<Rightarrow> int \<Rightarrow> sharp_fit \<Rightarrow> error option) \<Rightarrow>
   'b \<Rightarrow> jsnum \<times> jsnum \<Rightarrow> jsnum \<Rightarrow> FitMode \<Rightarrow> error + 'b resized" where
  "resizeImage toBuffer imageBuffer labelSize dpi fitMode =
     (let targetW = round_product (fst labelSize) dpi;
          targetH = round_product (snd labelSize) dpi
      in case fitMode of
           Stretch \<Rightarrow> sharp_resize toBuffer imageBuffer targetW targetH SharpFill
         | Fill \<Rightarrow> sharp_resize toBuffer imageBuffer targetW targetH SharpCover
         | Fit \<Rightarrow> sharp_resize toBuffer imageBuffer targetW targetH SharpContain)"

subsection \<open>Two-up page\<close>

definition PAGE_WIDTH_IN :: jsnum where
  "PAGE_WIDTH_IN = Num 11"

definition PAGE_HEIGHT_IN :: jsnum where
  "PAGE_HEIGHT_IN = Num (17 / 2)"

definition PTS_PER_INCH :: jsnum where
  "PTS_PER_INCH = Num 72"

text \<open>
  A document is its list of pages; a page is its size and the images drawn on it, in
  drawing order. \<open>embedPng\<close> belongs to the PDF library and may throw; it is a parameter.
\<close>

record 'e draw =
  draw_image :: 'e
  draw_x :: jsnum
  draw_y :: jsnum
  draw_width :: jsnum
  draw_height :: jsnum

record 'e page =
  page_width :: jsnum
  page_height :: jsnum
  draws :: "'e draw list"

fun draw_labels ::
  "('b \<Rightarrow> error + 'e) \<Rightarrow> 'b list \<Rightarrow> jsnum \<Rightarrow> jsnum \<Rightarrow> jsnum \<Rightarrow> jsnum \<Rightarrow>
   nat list \<Rightarrow> 'e page \<Rightarrow> error + 'e page" where
  "draw_labels embedPng images pageH labelW labelH halfW [] pg = Inr pg"
| "draw_labels embedPng images pageH labelW labelH halfW (i # is) pg =
     (case embedPng (images ! i) of
        Inl e \<Rightarrow> Inl e
      | Inr img \<Rightarrow>
          let x = (if i = 0 then js_half (js_sub halfW labelW)
                   else js_add halfW (js_half (js_sub halfW labelW)));
              y = js_half (js_sub pageH labelH)
          in draw_labels embedPng images pageH labelW labelH halfW is
               (pg\<lparr> draws := draws pg @
                   [\<lparr> draw_image = img, draw_x = x, draw_y = y,
                      draw_width = labelW, draw_height = labelH \<rparr>] \<rparr>))"

definition buildPdf2Up ::
  "('b \<Rightarrow> error + 'e) \<Rightarrow> 'b list \<Rightarrow> jsnum \<times> jsnum \<Rightarrow> error + 'e page list" where
  "buildPdf2Up embedPng images labelSize =
     (let pageW = js_mul PAGE_WIDTH_IN PTS_PER_INCH;
          pageH = js_mul PAGE_HEIGHT_IN PTS_PER_INCH;
          labelW = js_mul (fst labelSize) PTS_PER_INCH;
          labelH = js_mul (snd labelSize) PTS_PER_INCH;
          halfW = js_half pageW
      in case draw_labels embedPng images pageH labelW labelH halfW
                [0 ..< min (length images) 2]
                \<lparr> page_width = pageW, page_height = pageH, draws = [] \<rparr> of
           Inl e \<Rightarrow> Inl e
         | Inr pg \<Rightarrow> Inr [pg])"

text \<open>
  The Swift port, \<open>generate2UpPDF\<close>, draws onto the same page with the label size fixed
  at 4 by 6 inches; drawing an image cannot fail there.
\<close>

definition pageWidthInches :: rat where
  "pageWidthInches = 11"

definition pageHeightInches :: rat where
  "pageHeightInches = 17 / 2"

definition labelWidthInches :: rat where
  "labelWidthInches = 4"

definition labelHeightInches :: rat where
  "labelHeightInches = 6"

definition generate2UpPDF :: "'e list \<Rightarrow> 'e page list" where
  "generate2UpPDF labels =
     (let pageW = pageWidthInches * 72;
          pageH = pageHeightInches * 72;
          labelW = labelWidthInches * 72;
          labelH = labelHeightInches * 72;
          halfW = pageW / 2;
          xLeft = (halfW - labelW) / 2;
          xRight = halfW + (halfW - labelW) / 2;
          yOffset = (pageH - labelH) / 2
      in [\<lparr> page_width = Num pageW, page_height = Num pageH,
             draws = map (\<lambda>(i, label).
                       \<lparr> draw_image = label, draw_x = Num (if i = 0 then xLeft else xRight),
                         draw_y = Num yOffset, draw_width = Num labelW,
                         draw_height = Num labelH \<rparr>)
                     (enumerate 0 (take 2 labels)) \<rparr>])"

subsection \<open>Loading\<close>

definition SUPPORTED_IMAGE_EXTS :: "string list" where
  "SUPPORTED_IMAGE_EXTS = [''.png'', ''.jpg'', ''.jpeg'', ''.bmp'', ''.tiff'', ''.tif'', ''.webp'']"

definition SUPPORTED_PDF_EXTS :: "string list" where
  "SUPPORTED_PDF_EXTS = [''.pdf'']"

text \<open>A JavaScript \<open>Set\<close> built from a sequence: its elements in order of first insertion.\<close>

definition js_set_of :: "'a list \<Rightarrow> 'a list" where
  "js_set_of xs = rev (remdups (rev xs))"

definition SUPPORTED_EXTS :: "string list" where
  "SUPPORTED_EXTS = js_set_of (SUPPORTED_IMAGE_EXTS @ SUPPORTED_PDF_EXTS)"

text \<open>
  \<open>Array.prototype.sort\<close> without a comparator orders strings by their code units, which
  is the lexicographic order of \<open>string\<close> over the order of \<open>char\<close>; \<open>join\<close> puts the
  separator between the elements.
\<close>

fun js_join :: "string \<Rightarrow> string list \<Rightarrow> string" where
  "js_join sep [] = []"
| "js_join sep [x] = x"
| "js_join sep (x # y # ys) = x @ sep @ js_join sep (y # ys)"

text \<open>
  \<open>path.extname\<close> (POSIX flavour): the part of the last path segment from its last dot,
  empty when the segment has no dot, starts with its only dot, or is \<open>..\<close>.
  \<open>toLowerCase\<close> is modelled on ASCII letters.
\<close>

definition basename :: "string \<Rightarrow> string" where
  "basename p =
     (let q = rev (dropWhile (\<lambda>c. c = CHR ''/'') (rev p))
      in rev (takeWhile (\<lambda>c. c \<noteq> CHR ''/'') (rev q)))"

definition extname :: "string \<Rightarrow> string" where
  "extname p =
     (let b = basename p;
          after = rev (takeWhile (\<lambda>c. c \<noteq> CHR ''.'') (rev b))
      in if CHR ''.'' \<notin> set b \<or> length after + 1 = length b \<or> b = ''..'' then []
         else CHR ''.'' # after)"

definition toLowerCase_char :: "char \<Rightarrow> char" where
  "toLowerCase_char c =
     (let n = (of_char c :: nat) in if 65 \<le> n \<and> n \<le> 90 then char_of (n + 32) else c)"

definition toLowerCase :: "string \<Rightarrow> string" where
  "toLowerCase s = map toLowerCase_char s"

text \<open>
  The message of \<open>loadImage\<close>:
  \<^verbatim>\<open>Unsupported file format '<ext>'. Supported: <sorted extensions joined by ", ">\<close>
  (\<open>CHR 0x27\<close> is the single quote).
\<close>

definition unsupported_file_format :: "string \<Rightarrow> string" where
  "unsupported_file_format ext =
     ''Unsupported file format '' @ [CHR 0x27] @ ext @ [CHR 0x27] @ ''. Supported: '' @
       js_join '', '' (sort SUPPORTED_EXTS)"

text \<open>
  \<open>loadImage\<close>; the decoder of bitmap files and the PDF rasteriser are parameters.
\<close>

definition loadImage ::
  "(string \<Rightarrow> error + 'b) \<Rightarrow> (string \<Rightarrow> error + 'b) \<Rightarrow> string \<Rightarrow> error + 'b" where
  "loadImage decodeFile loadImageFromPdf inputPath =
     (let ext = toLowerCase (extname inputPath)
      in if ext \<in> set SUPPORTED_IMAGE_EXTS then decodeFile inputPath
         else if ext \<in> set SUPPORTED_PDF_EXTS then loadImageFromPdf inputPath
         else Inl (Error (unsupported_file_format ext)))"

text \<open>
  The gate of the web route \<open>POST /resize\<close>: what it passes on to
  \<open>resizeLabelFromBuffers\<close> as \<open>(buffer1, ext1, buffer2, ext2)\<close>, or the error it answers
  with. Its message for the first file reads \<open>Unsupported format '<ext>'. Supported: ...\<close>.
  A second file whose extension is not supported leaves \<open>buffer2\<close> undefined.
\<close>

record 'b upload =
  originalname :: string
  buffer :: 'b

definition unsupported_format :: "string \<Rightarrow> string" where
  "unsupported_format ext =
     ''Unsupported format '' @ [CHR 0x27] @ ext @ [CHR 0x27] @ ''. Supported: '' @
       js_join '', '' (sort SUPPORTED_EXTS)"

definition resize_route_files ::
  "'b upload option \<Rightarrow> 'b upload option \<Rightarrow> error + ('b \<times> string \<times> 'b option \<times> string option)" where
  "resize_route_files file file2 =
     (case file of
        None \<Rightarrow> Inl (Error ''No file uploaded'')
      | Some file1 \<Rightarrow>
          let ext1 = toLowerCase (extname (originalname file1)) in
          if ext1 \<notin> set SUPPORTED_EXTS then Inl (Error (unsupported_format ext1))
          else
            (case file2 of
               None \<Rightarrow> Inr (buffer file1, ext1, None, None)
             | Some f2 \<Rightarrow>
                 if originalname f2 = [] then Inr (buffer file1, ext1, None, None)
                 else
                   let ext2 = toLowerCase (extname (originalname f2)) in
                   if ext2 \<in> set SUPPORTED_EXTS
                   then Inr (buffer file1, ext1, Some (buffer f2), Some ext2)
                   else Inr (buffer file1, ext1, None, Some ext2)))"

subsection \<open>Entry points\<close>

definition LABEL_SIZES :: "(string \<times> (jsnum \<times> jsnum)) list" where
  "LABEL_SIZES =
     [(''4x6'', (Num 4, Num 6)), (''4x8'', (Num 4, Num 8)), (''2x7'', (Num 2, Num 7)),
      (''letter'', (Num (17 / 2), Num 11))]"

definition DEFAULT_LABEL_SIZE :: string where
  "DEFAULT_LABEL_SIZE = ''4x6''"

definition DEFAULT_DPI :: jsnum where
  "DEFAULT_DPI = Num 300"

text \<open>
  \<open>LABEL_SIZES\<close> is an object literal, so \<open>LABEL_SIZES[key]\<close> is a property read: an own
  property if the key is one, else the member of that name inherited from
  \<open>Object.prototype\<close>, else \<open>undefined\<close>. The operator \<open>??\<close> replaces only \<open>undefined\<close>
  (and \<open>null\<close>).
\<close>

datatype 'a js_property = Own 'a | Inherited | Undefined

definition Object_prototype_members :: "string list" where
  "Object_prototype_members =
     [''constructor'', ''hasOwnProperty'', ''isPrototypeOf'', ''propertyIsEnumerable'',
      ''toLocaleString'', ''toString'', ''valueOf'', ''__proto__'', ''__defineGetter__'',
      ''__defineSetter__'', ''__lookupGetter__'', ''__lookupSetter__'']"

definition js_get :: "(string \<times> 'a) list \<Rightarrow> string \<Rightarrow> 'a js_property" where
  "js_get obj key =
     (case map_of obj key of
        Some v \<Rightarrow> Own v
      | None \<Rightarrow> if key \<in> set Object_prototype_members then Inherited else Undefined)"

definition label_size_for :: "string \<Rightarrow> (jsnum \<times> jsnum) js_property" where
  \<comment> \<open>\<open>LABEL_SIZES[labelSizeKey] ?? LABEL_SIZES[DEFAULT_LABEL_SIZE]\<close>\<close>
  "label_size_for labelSizeKey =
     (case js_get LABEL_SIZES labelSizeKey of
        Undefined \<Rightarrow> js_get LABEL_SIZES DEFAULT_LABEL_SIZE
      | v \<Rightarrow> v)"

text \<open>
  What \<open>size[0]\<close> and \<open>size[1]\<close> give where the size is used: the two numbers of an own
  entry; for an inherited member (a function, or \<open>Object.prototype\<close> itself) both reads
  are \<open>undefined\<close>, which is \<open>NaN\<close> in a product.
\<close>

fun size_numbers :: "(jsnum \<times> jsnum) js_property \<Rightarrow> jsnum \<times> jsnum" where
  "size_numbers (Own p) = p"
| "size_numbers Inherited = (NaN, NaN)"
| "size_numbers Undefined = (NaN, NaN)"

text \<open>\<open>if (autoCrop) buf = await autoCropLabel(buf)\<close>: the buffer and what became of it.\<close>

definition crop_stage :: "bool \<Rightarrow> image \<Rightarrow> error + (image \<times> crop_result)" where
  "crop_stage autoCrop buf =
     (if autoCrop
      then (case detectCrop buf of Inl e \<Rightarrow> Inl e | Inr c \<Rightarrow> Inr (buf, c))
      else Inr (buf, NoCropNeeded))"

definition prepareLabel ::
  "(string \<Rightarrow> error + image) \<Rightarrow> (string \<Rightarrow> error + image) \<Rightarrow>
   (image \<times> crop_result \<Rightarrow> int \<Rightarrow> int \<Rightarrow> sharp_fit \<Rightarrow> error option) \<Rightarrow>
   string \<Rightarrow> jsnum \<Rightarrow> FitMode \<Rightarrow> bool \<Rightarrow> jsnum \<times> jsnum \<Rightarrow>
   error + (image \<times> crop_result) resized" where
  "prepareLabel decodeFile loadImageFromPdf toBuffer inputPath dpi fitMode autoCrop labelSize =
     (case loadImage decodeFile loadImageFromPdf inputPath of
        Inl e \<Rightarrow> Inl e
      | Inr buf \<Rightarrow>
          (case crop_stage autoCrop buf of
             Inl e \<Rightarrow> Inl e
           | Inr cropped \<Rightarrow> resizeImage toBuffer cropped labelSize dpi fitMode))"

text \<open>
  \<open>inputPath.replace(/\.[^.]+$/, "")\<close> removes a last dot that is followed by at least one
  character, with what follows it.
\<close>

definition strip_extension :: "string \<Rightarrow> string" where
  "strip_extension p =
     (let after = rev (takeWhile (\<lambda>c. c \<noteq> CHR ''.'') (rev p))
      in if CHR ''.'' \<in> set p \<and> after \<noteq> [] then take (length p - length after - 1) p else p)"

text \<open>
  \<open>resizeLabel\<close>, its options after their defaults; \<open>fileExists\<close> is \<open>fs.existsSync\<close>,
  \<open>toBuffer\<close> the image library's processing as in \<open>resizeImage\<close>. The result is the
  output path and the document written there.
\<close>

definition resizeLabel ::
  "(string \<Rightarrow> bool) \<Rightarrow> (string \<Rightarrow> error + image) \<Rightarrow> (string \<Rightarrow> error + image) \<Rightarrow>
   (image \<times> crop_result \<Rightarrow> int \<Rightarrow> int \<Rightarrow> sharp_fit \<Rightarrow> error option) \<Rightarrow>
   ((image \<times> crop_result) resized \<Rightarrow> error + 'e) \<Rightarrow>
   string \<Rightarrow> string option \<Rightarrow> string option \<Rightarrow> jsnum \<Rightarrow> FitMode \<Rightarrow> bool \<Rightarrow> string \<Rightarrow>
   error + (string \<times> 'e page list)" where
  "resizeLabel fileExists decodeFile loadImageFromPdf toBuffer embedPng
       inputPath outputPath inputPath2 dpi fitMode autoCrop labelSizeKey =
     (let second = (case inputPath2 of None \<Rightarrow> None | Some p \<Rightarrow> if p = [] then None else Some p);
          missing2 = (case second of
                        None \<Rightarrow> None
                      | Some p \<Rightarrow>
                          if \<not> fileExists p
                          then Some (Error (''Second input file not found: '' @ p)) else None);
          size = size_numbers (label_size_for labelSizeKey);
          out = (case outputPath of
                   None \<Rightarrow> strip_extension inputPath @ ''_label.pdf''
                 | Some p \<Rightarrow> if p = [] then strip_extension inputPath @ ''_label.pdf'' else p)
      in if \<not> fileExists inputPath then Inl (Error (''Input file not found: '' @ inputPath))
         else
           (case missing2 of
              Some e \<Rightarrow> Inl e
            | None \<Rightarrow>
                (case prepareLabel decodeFile loadImageFromPdf toBuffer inputPath dpi fitMode autoCrop
                        size of
                   Inl e \<Rightarrow> Inl e
                 | Inr l1 \<Rightarrow>
                     (case (case second of
                              None \<Rightarrow> Inr [l1]
                            | Some p \<Rightarrow>
                                (case prepareLabel decodeFile loadImageFromPdf toBuffer p dpi fitMode
                                        autoCrop size of
                                   Inl e \<Rightarrow> Inl e
                                 | Inr l2 \<Rightarrow> Inr [l1, l2])) of
                        Inl e \<Rightarrow> Inl e
                      | Inr labels \<Rightarrow>
                          (case buildPdf2Up embedPng labels size of
                             Inl e \<Rightarrow> Inl e
                           | Inr doc \<Rightarrow> Inr (out, doc))))))"

text \<open>
  \<open>resizeLabelFromBuffers\<close>; \<open>rasterise\<close> stands for writing the buffer to a temporary
  file and \<open>loadImageFromPdf(tmp, 0, dpi)\<close>, \<open>decodeBuffer\<close> for \<open>sharp(buf).png()\<close>.
\<close>

definition resizeLabelFromBuffers ::
  "('b \<Rightarrow> jsnum \<Rightarrow> error + image) \<Rightarrow> ('b \<Rightarrow> error + image) \<Rightarrow>
   (image \<times> crop_result \<Rightarrow> int \<Rightarrow> int \<Rightarrow> sharp_fit \<Rightarrow> error option) \<Rightarrow>
   ((image \<times> crop_result) resized \<Rightarrow> error + 'e) \<Rightarrow>
   'b \<Rightarrow> string \<Rightarrow> 'b option \<Rightarrow> string option \<Rightarrow> jsnum \<Rightarrow> FitMode \<Rightarrow> bool \<Rightarrow> string \<Rightarrow>
   error + 'e page list" where
  "resizeLabelFromBuffers rasterise decodeBuffer toBuffer embedPng
       buffer1 ext1 buffer2 ext2 dpi fitMode autoCrop labelSizeKey =
     (let size = size_numbers (label_size_for labelSizeKey);
          bufToImage = (\<lambda>buf ext.
            if ext \<in> set SUPPORTED_PDF_EXTS then rasterise buf dpi else decodeBuffer buf);
          prepare = (\<lambda>buf ext.
            case bufToImage buf ext of
              Inl e \<Rightarrow> Inl e
            | Inr img \<Rightarrow>
                (case crop_stage autoCrop img of
                   Inl e \<Rightarrow> Inl e
                 | Inr cropped \<Rightarrow> resizeImage toBuffer cropped size dpi fitMode))
      in case prepare buffer1 ext1 of
           Inl e \<Rightarrow> Inl e
         | Inr l1 \<Rightarrow>
             (case (case (buffer2, ext2) of
                      (Some b2, Some e2) \<Rightarrow>
                        if e2 = [] then Inr [l1]
                        else (case prepare b2 e2 of
                                Inl e \<Rightarrow> Inl e
                              | Inr l2 \<Rightarrow> Inr [l1, l2])
                    | _ \<Rightarrow> Inr [l1]) of
                Inl e \<Rightarrow> Inl e
              | Inr labels \<Rightarrow> buildPdf2Up embedPng labels size))"

subsection \<open>The specification's reading of the border search\<close>

text \<open>
  The dark pixels of an image as \<open>(row, column)\<close> pairs, and the area of the tightest box
  around them, with the right and bottom bounds one past the last dark column and row
  (0 when there is no dark pixel).
\<close>

definition dark_pixels :: "nat \<Rightarrow> image \<Rightarrow> (nat \<times> nat) list" where
  "dark_pixels darkThreshold img =
     filter (\<lambda>(y, x). is_dark darkThreshold img (y * width img + x))
       (List.product [0..<height img] [0..<width img])"

definition dark_bbox_area :: "nat \<Rightarrow> image \<Rightarrow> nat" where
  "dark_bbox_area darkThreshold img =
     (let xs = map snd (dark_pixels darkThreshold img);
          ys = map fst (dark_pixels darkThreshold img)
      in if dark_pixels darkThreshold img = [] then 0
         else (Max (set xs) + 1 - Min (set xs)) * (Max (set ys) + 1 - Min (set ys)))"

text \<open>
  The inward scan as the specification words it: from each of the four edges, up to
  \<open>min(boxDimension / 2, edgeScanLimit)\<close> steps, one line per step; the edge moves to the
  first line that is not a border line, and stays if every scanned line is one.
  Step \<open>k\<close> from the top looks at row \<open>by0 + k\<close>, from the bottom at row \<open>by1 - 1 - k\<close>.
\<close>

definition edgeScanLimit :: nat where
  "edgeScanLimit = 100"

definition spec_scan_inward :: "nat \<Rightarrow> image \<Rightarrow> bbox \<Rightarrow> edges" where
  "spec_scan_inward darkThreshold img b =
     (let stepsH = min ((by1 b - by0 b) div 2) edgeScanLimit;
          stepsW = min ((bx1 b - bx0 b) div 2) edgeScanLimit;
          row_ok = (\<lambda>y. \<not> rowIsBorder darkThreshold img y (bx0 b) (bx1 b));
          col_ok = (\<lambda>x. \<not> colIsBorder darkThreshold img x (by0 b) (by1 b))
      in \<lparr> edge_left = (case find (\<lambda>k. col_ok (bx0 b + k)) [0..<stepsW] of
                         Some k \<Rightarrow> bx0 b + k | None \<Rightarrow> bx0 b),
           edge_top = (case find (\<lambda>k. row_ok (by0 b + k)) [0..<stepsH] of
                         Some k \<Rightarrow> by0 b + k | None \<Rightarrow> by0 b),
           edge_right = (case find (\<lambda>k. col_ok (bx1 b - 1 - k)) [0..<stepsW] of
                         Some k \<Rightarrow> bx1 b - k | None \<Rightarrow> bx1 b),
           edge_bottom = (case find (\<lambda>k. row_ok (by1 b - 1 - k)) [0..<stepsH] of
                         Some k \<Rightarrow> by1 b - k | None \<Rightarrow> by1 b) \<rparr>)"

subsection \<open>Example images\<close>

text \<open>
  Small images for evaluating the functions: a white one; one with a single dark pixel
  in 21; a single row of 30 pixels whose middle ten are black; and two columns of twelve
  rows whose rows 0 and 3 are black.
\<close>

definition img_white :: image where
  "img_white = \<lparr> width = 2, height = 2, gray = [255, 255, 255, 255] \<rparr>"

definition img_speck :: image where
  "img_speck = \<lparr> width = 7, height = 3, gray = 0 # replicate 20 255 \<rparr>"

definition img_strip :: image where
  "img_strip = \<lparr> width = 30, height = 1,
                 gray = replicate 10 255 @ replicate 10 0 @ replicate 10 255 \<rparr>"

definition img_rows :: image where
  "img_rows = \<lparr> width = 2, height = 12,
                gray = [0, 0, 255, 255, 255, 255, 0, 0] @ replicate 16 255 \<rparr>"

section \<open>Properties\<close>

subsection \<open>Two-up page\<close>

text \<open>
  The drawing loop reads \<open>images\<close> only at the indices it visits, appends one draw per
  index and leaves the page size alone.
\<close>

lemma draw_labels_cong:
  "(\<And>i. i \<in> set is \<Longrightarrow> images ! i = images' ! i) \<Longrightarrow>
   draw_labels embedPng images pageH labelW labelH halfW is pg =
   draw_labels embedPng images' pageH labelW labelH halfW is pg"
proof (induction "is" arbitrary: pg)
  case Nil
  show ?case by simp
next
  case (Cons i "is")
  have "images ! i = images' ! i" using Cons.prems by simp
  moreover have "\<And>pg'. draw_labels embedPng images pageH labelW labelH halfW is pg' =
      draw_labels embedPng images' pageH labelW labelH halfW is pg'"
    using Cons.prems by (intro Cons.IH) simp
  ultimately show ?case by (simp split: sum.splits)
qed

lemma buildPdf2Up_Nil:
  "buildPdf2Up embedPng [] labelSize =
     Inr [\<lparr> page_width = Num 792, page_height = Num 612, draws = [] \<rparr>]"
  by (simp add: buildPdf2Up_def PAGE_WIDTH_IN_def PAGE_HEIGHT_IN_def PTS_PER_INCH_def)

lemma buildPdf2Up_unfold:
  "buildPdf2Up embedPng images labelSize =
     (case draw_labels embedPng images (Num 612) (js_mul (fst labelSize) (Num 72))
             (js_mul (snd labelSize) (Num 72)) (Num 396) [0 ..< min (length images) 2]
             \<lparr> page_width = Num 792, page_height = Num 612, draws = [] \<rparr> of
        Inl e \<Rightarrow> Inl e
      | Inr pg \<Rightarrow> Inr [pg])"
  by (simp add: buildPdf2Up_def PAGE_WIDTH_IN_def PAGE_HEIGHT_IN_def PTS_PER_INCH_def Let_def)

lemma buildPdf2Up_take:
  "buildPdf2Up embedPng images labelSize = buildPdf2Up embedPng (take 2 images) labelSize"
proof -
  have len: "min (length (take 2 images)) 2 = min (length images) 2" by simp
  have "draw_labels embedPng images pageH labelW labelH halfW [0 ..< min (length images) 2] pg =
        draw_labels embedPng (take 2 images) pageH labelW labelH halfW
          [0 ..< min (length images) 2] pg" for pageH labelW labelH halfW pg
    by (rule draw_labels_cong) simp
  then show ?thesis unfolding buildPdf2Up_def len by simp
qed

lemma draw_labels_length:
  "draw_labels embedPng images pageH labelW labelH halfW is pg = Inr pg' \<Longrightarrow>
   length (draws pg') = length (draws pg) + length is \<and>
   page_width pg' = page_width pg \<and> page_height pg' = page_height pg"
proof (induction "is" arbitrary: pg)
  case Nil
  then show ?case by simp
next
  case (Cons i "is")
  from Cons.prems obtain img where e: "embedPng (images ! i) = Inr img"
    by (auto split: sum.splits)
  from Cons.prems e Cons.IH show ?case by (fastforce simp: Let_def)
qed

lemma draw_labels_images:
  "draw_labels embedPng images pageH labelW labelH halfW is pg = Inr pg' \<Longrightarrow>
   map Inr (map draw_image (draws pg')) =
     map Inr (map draw_image (draws pg)) @ map (\<lambda>i. embedPng (images ! i)) is"
proof (induction "is" arbitrary: pg)
  case Nil
  then show ?case by simp
next
  case (Cons i "is")
  from Cons.prems obtain img where e: "embedPng (images ! i) = Inr img"
    by (auto split: sum.splits)
  from Cons.prems e Cons.IH show ?case by (fastforce simp: Let_def)
qed

lemma buildPdf2Up_prefix:
  "buildPdf2Up embedPng images labelSize = buildPdf2Up embedPng (take 2 images) labelSize
   \<and> buildPdf2Up embedPng [] labelSize =
       Inr [\<lparr> page_width = Num 792, page_height = Num 612, draws = [] \<rparr>]
   \<and> (\<forall>doc. buildPdf2Up embedPng images labelSize = Inr doc \<longrightarrow>
        (\<exists>pg. doc = [pg] \<and> page_width pg = Num 792 \<and> page_height pg = Num 612
           \<and> length (draws pg) = min (length images) 2
           \<and> map Inr (map draw_image (draws pg)) = map embedPng (take 2 images)))"
proof (intro conjI allI impI)
  show "buildPdf2Up embedPng images labelSize = buildPdf2Up embedPng (take 2 images) labelSize"
    by (rule buildPdf2Up_take)
  show "buildPdf2Up embedPng [] labelSize =
       Inr [\<lparr> page_width = Num 792, page_height = Num 612, draws = [] \<rparr>]"
    by (rule buildPdf2Up_Nil)
next
  fix doc
  assume a: "buildPdf2Up embedPng images labelSize = Inr doc"
  define labelW where "labelW = js_mul (fst labelSize) (Num 72)"
  define labelH where "labelH = js_mul (snd labelSize) (Num 72)"
  from a obtain pg where
    d: "draw_labels embedPng images (Num 612) labelW labelH (Num 396)
          [0 ..< min (length images) 2]
          \<lparr> page_width = Num 792, page_height = Num 612, draws = [] \<rparr> = Inr pg"
    and doc: "doc = [pg]"
    by (auto simp: buildPdf2Up_unfold labelW_def labelH_def split: sum.splits)
  have idx: "map (\<lambda>i. embedPng (images ! i)) [0 ..< min (length images) 2] =
      map embedPng (take 2 images)"
    by (simp add: list_eq_iff_nth_eq)
  from draw_labels_length[OF d] draw_labels_images[OF d] idx doc
  show "\<exists>pg. doc = [pg] \<and> page_width pg = Num 792 \<and> page_height pg = Num 612
           \<and> length (draws pg) = min (length images) 2
           \<and> map Inr (map draw_image (draws pg)) = map embedPng (take 2 images)"
    by simp
qed

lemma generate2UpPDF_unfold:
  "generate2UpPDF labels =
     [\<lparr> page_width = Num 792, page_height = Num 612,
        draws = map (\<lambda>(i, label).
                  \<lparr> draw_image = label, draw_x = Num (if i = 0 then 54 else 450),
                    draw_y = Num 90, draw_width = Num 288, draw_height = Num 432 \<rparr>)
                (enumerate 0 (take 2 labels)) \<rparr>]"
proof -
  have "(792 / 2 - 288) / 2 = (54 :: rat)" "792 / 2 + (792 / 2 - 288) / 2 = (450 :: rat)"
    by simp_all
  then show ?thesis
    by (simp add: generate2UpPDF_def pageWidthInches_def pageHeightInches_def
          labelWidthInches_def labelHeightInches_def Let_def case_prod_beta)
qed

lemma generate2UpPDF_prefix:
  "generate2UpPDF labels = generate2UpPDF (take 2 labels)
   \<and> generate2UpPDF [] = [\<lparr> page_width = Num 792, page_height = Num 612, draws = [] \<rparr>]
   \<and> (\<exists>pg. generate2UpPDF labels = [pg]
          \<and> length (draws pg) = min (length labels) 2
          \<and> map draw_image (draws pg) = take 2 labels)"
proof -
  have "map draw_image (map (\<lambda>(i, label).
                  \<lparr> draw_image = label, draw_x = Num (if i = 0 then 54 else 450),
                    draw_y = Num 90, draw_width = Num 288, draw_height = Num 432 \<rparr>)
                (enumerate 0 xs)) = xs" for xs :: "'a list"
    by (simp add: list_eq_iff_nth_eq nth_enumerate_eq case_prod_beta)
  then show ?thesis by (simp add: generate2UpPDF_unfold)
qed

text \<open>
  C10. \<open>buildPdf2Up\<close> embeds at most the first two buffers of its list: its result on any
  list is its result on the first two elements, so further labels are ignored (they are
  not even handed to \<open>embedPng\<close>). On the empty list it does not fail: it returns a
  document of one page, 792 by 612 points, with no image drawn. Whenever it returns a
  document, that document has exactly one page, and the images drawn on it are the
  embeddings of the first two labels, in order. The same holds of the Swift port
  \<open>generate2UpPDF\<close>, which always returns its one-page document.
\<close>

theorem buildPdf2Up_first_two:
  "(buildPdf2Up embedPng images labelSize = buildPdf2Up embedPng (take 2 images) labelSize
    \<and> buildPdf2Up embedPng [] labelSize =
        Inr [\<lparr> page_width = Num 792, page_height = Num 612, draws = [] \<rparr>]
    \<and> (\<forall>doc. buildPdf2Up embedPng images labelSize = Inr doc \<longrightarrow>
         (\<exists>pg. doc = [pg] \<and> page_width pg = Num 792 \<and> page_height pg = Num 612
            \<and> length (draws pg) = min (length images) 2
            \<and> map Inr (map draw_image (draws pg)) = map embedPng (take 2 images))))
   \<and> (generate2UpPDF labels = generate2UpPDF (take 2 labels)
    \<and> generate2UpPDF [] = [\<lparr> page_width = Num 792, page_height = Num 612, draws = [] \<rparr>]
    \<and> (\<exists>pg. generate2UpPDF labels = [pg]
           \<and> length (draws pg) = min (length labels) 2
           \<and> map draw_image (draws pg) = take 2 labels))"
  using buildPdf2Up_prefix[of embedPng images labelSize] generate2UpPDF_prefix[of labels]
  by (rule conjI)

text \<open>Three labels on a 4 by 6 inch size: the page carries the first two.\<close>

theorem buildPdf2Up_first_two_witness:
  "buildPdf2Up Inr [1, 2, 3 :: nat] (Num 4, Num 6) =
     Inr [\<lparr> page_width = Num 792, page_height = Num 612,
            draws = [\<lparr> draw_image = 1, draw_x = Num 54, draw_y = Num 90,
                       draw_width = Num 288, draw_height = Num 432 \<rparr>,
                     \<lparr> draw_image = 2, draw_x = Num 450, draw_y = Num 90,
                       draw_width = Num 288, draw_height = Num 432 \<rparr>] \<rparr>]
   \<and> (\<exists>pg. buildPdf2Up Inr [1, 2, 3 :: nat] (Num 4, Num 6) = Inr [pg]
        \<and> length (draws pg) = 2
        \<and> map Inr (map draw_image (draws pg)) = [Inr 1, Inr 2 :: error + nat])
   \<and> (\<exists>pg. generate2UpPDF [1, 2, 3 :: nat] = [pg] \<and> map draw_image (draws pg) = [1, 2])"
proof -
  let ?doc = "[\<lparr> page_width = Num 792, page_height = Num 612,
            draws = [\<lparr> draw_image = 1 :: nat, draw_x = Num 54, draw_y = Num 90,
                       draw_width = Num 288, draw_height = Num 432 \<rparr>,
                     \<lparr> draw_image = 2, draw_x = Num 450, draw_y = Num 90,
                       draw_width = Num 288, draw_height = Num 432 \<rparr>] \<rparr>]"
  have two: "buildPdf2Up (Inr :: nat \<Rightarrow> error + nat) [1, 2] (Num 4, Num 6) = Inr ?doc"
    by (simp add: buildPdf2Up_def PAGE_WIDTH_IN_def PAGE_HEIGHT_IN_def PTS_PER_INCH_def
          upt_rec numeral_2_eq_2 Let_def)
  have t: "take 2 [1, 2, 3 :: nat] = [1, 2]" by (simp add: numeral_2_eq_2)
  note inst = buildPdf2Up_first_two[of "Inr :: nat \<Rightarrow> error + nat" "[1, 2, 3]" "(Num 4, Num 6)"
      "[1, 2, 3 :: nat]"]
  note ts = inst[THEN conjunct1] and sw = inst[THEN conjunct2]
  from ts[THEN conjunct1]
  have three: "buildPdf2Up (Inr :: nat \<Rightarrow> error + nat) [1, 2, 3] (Num 4, Num 6) = Inr ?doc"
    by (simp only: t two)
  note rest = ts[THEN conjunct2, THEN conjunct2]
  note swift = sw[THEN conjunct2, THEN conjunct2]
  from rest three swift show ?thesis by (auto simp: t)
qed

text \<open>
  C5. The page is 792 by 612 points; its left half spans \<open>[0, 396]\<close>, its right half
  \<open>[396, 792]\<close>. For a list of one or two labels that embed, \<open>buildPdf2Up\<close> draws label 1
  at \<open>xLeft\<close> and label 2 (if present) at \<open>xRight\<close>, each \<open>w * 72\<close> by \<open>h * 72\<close> points at
  height \<open>y\<close>, where label 1 is centred in the left half (its margin \<open>xLeft - 0\<close> on the
  left equals its margin \<open>396 - (xLeft + labelWidth)\<close> on the right), label 2 is centred
  in the right half, both are centred vertically, and the two offsets mirror each other
  about the centre line: \<open>xRight - halfPageWidth = halfPageWidth - (xLeft + labelWidth)\<close>.
\<close>

theorem buildPdf2Up_centred:
  assumes len: "length images = 1 \<or> length images = 2"
      and emb: "map embedPng images = map Inr es"
  shows "\<exists>xLeft xRight y.
     buildPdf2Up embedPng images (Num w, Num h) =
       Inr [\<lparr> page_width = Num 792, page_height = Num 612,
              draws = map (\<lambda>(e, x). \<lparr> draw_image = e, draw_x = Num x, draw_y = Num y,
                                      draw_width = Num (w * 72), draw_height = Num (h * 72) \<rparr>)
                        (zip es [xLeft, xRight]) \<rparr>]
     \<and> xLeft - 0 = 396 - (xLeft + w * 72)
     \<and> xRight - 396 = 792 - (xRight + w * 72)
     \<and> y - 0 = 612 - (y + h * 72)
     \<and> xRight - 396 = 396 - (xLeft + w * 72)"
proof -
  let ?xl = "(396 - w * 72) / 2" and ?xr = "396 + (396 - w * 72) / 2"
  let ?y = "(612 - h * 72) / 2"
  have idx1: "[0 ..< Suc 0] = [0]" and idx2: "[0 ..< 2] = [0, Suc 0]"
    by (simp_all add: upt_rec)
  have "buildPdf2Up embedPng images (Num w, Num h) =
       Inr [\<lparr> page_width = Num 792, page_height = Num 612,
              draws = map (\<lambda>(e, x). \<lparr> draw_image = e, draw_x = Num x, draw_y = Num ?y,
                                      draw_width = Num (w * 72), draw_height = Num (h * 72) \<rparr>)
                        (zip es [?xl, ?xr]) \<rparr>]"
    using len
  proof
    assume "length images = 1"
    then obtain a where a: "images = [a]" by (cases images) auto
    with emb obtain e where e: "es = [e]" "embedPng a = Inr e" by (cases es) auto
    show ?thesis by (simp add: a e buildPdf2Up_unfold idx1 Let_def)
  next
    assume "length images = 2"
    then obtain a b where a: "images = [a, b]"
      by (cases images; cases "tl images") auto
    with emb obtain e1 e2 where e: "es = [e1, e2]" "embedPng a = Inr e1" "embedPng b = Inr e2"
      by (cases es; cases "tl es") auto
    show ?thesis by (simp add: a e buildPdf2Up_unfold idx2 Let_def)
  qed
  moreover have "?xl - 0 = 396 - (?xl + w * 72)" "?xr - 396 = 792 - (?xr + w * 72)"
    "?y - 0 = 612 - (?y + h * 72)" "?xr - 396 = 396 - (?xl + w * 72)"
    by (simp_all add: field_simps)
  ultimately show ?thesis by blast
qed

text \<open>Two 4 by 6 inch labels: at 54 and 450 points from the left, 90 from the bottom.\<close>

theorem buildPdf2Up_centred_witness:
  "buildPdf2Up Inr [10, 20 :: nat] (Num 4, Num 6) =
     Inr [\<lparr> page_width = Num 792, page_height = Num 612,
            draws = [\<lparr> draw_image = 10, draw_x = Num 54, draw_y = Num 90,
                       draw_width = Num 288, draw_height = Num 432 \<rparr>,
                     \<lparr> draw_image = 20, draw_x = Num 450, draw_y = Num 90,
                       draw_width = Num 288, draw_height = Num 432 \<rparr>] \<rparr>]"
proof -
  have len: "length [10, 20 :: nat] = 1 \<or> length [10, 20 :: nat] = 2" by simp
  have emb: "map (Inr :: nat \<Rightarrow> error + nat) [10, 20] = map Inr [10, 20]" by simp
  from buildPdf2Up_centred[OF len emb, of 4 6] obtain xLeft xRight y where
    doc: "buildPdf2Up (Inr :: nat \<Rightarrow> error + nat) [10, 20] (Num 4, Num 6) =
       Inr [\<lparr> page_width = Num 792, page_height = Num 612,
              draws = map (\<lambda>(e, x). \<lparr> draw_image = e, draw_x = Num x, draw_y = Num y,
                                      draw_width = Num (4 * 72), draw_height = Num (6 * 72) \<rparr>)
                        (zip [10, 20] [xLeft, xRight]) \<rparr>]"
    and l: "xLeft - 0 = 396 - (xLeft + 4 * 72)"
    and r: "xRight - 396 = 792 - (xRight + 4 * 72)"
    and v: "y - 0 = 612 - (y + 6 * 72)"
    by blast
  from l have "xLeft = 54" by simp
  moreover from r have "xRight = 450" by simp
  moreover from v have "y = 90" by simp
  ultimately show ?thesis using doc by simp
qed

subsection \<open>Resize\<close>

text \<open>
  Rounding to a double. \<open>round_half_even\<close> is within one half of its argument and fixes the
  integers; \<open>binary_exponent\<close> brackets a positive number between two consecutive powers
  of two; the result of \<open>to_double\<close> is within half a unit in the last place of its
  argument, keeps the sign, is a double (rounding it again changes nothing), and is
  exact on the integers up to \<open>2\<^sup>5\<^sup>3\<close>.
\<close>

lemma round_half_even_bounds: "\<bar>of_int (round_half_even y) - y\<bar> \<le> 1 / 2"
proof -
  define f where "f = \<lfloor>y\<rfloor>"
  have "of_int f \<le> y" "y < of_int f + 1" unfolding f_def by linarith+
  then show ?thesis
    unfolding round_half_even_def Let_def f_def[symmetric]
    by (simp add: abs_if)
qed

lemma round_half_even_of_int [simp]: "round_half_even (of_int n) = n"
  by (simp add: round_half_even_def)

lemma round_half_even_nonneg: "0 \<le> y \<Longrightarrow> 0 \<le> round_half_even y"
  by (auto simp: round_half_even_def Let_def)

lemma bitlen_powi_bounds:
  assumes "0 < p"
  shows "2 powi (bitlen p - 1) \<le> (of_int p :: rat)" and "(of_int p :: rat) < 2 powi bitlen p"
proof -
  from assms have b: "1 \<le> bitlen p" by (auto simp: bitlen_alt_def)
  from bitlen_bounds[OF assms]
  have "(2 :: int) ^ nat (bitlen p - 1) \<le> p" and "p < 2 ^ nat (bitlen p)" by simp_all
  then have "(of_int (2 ^ nat (bitlen p - 1)) :: rat) \<le> of_int p"
    and "(of_int p :: rat) < of_int (2 ^ nat (bitlen p))"
    by (simp_all only: of_int_le_iff of_int_less_iff)
  then show "2 powi (bitlen p - 1) \<le> (of_int p :: rat)" and "(of_int p :: rat) < 2 powi bitlen p"
    using b by (simp_all add: power_int_def)
qed

lemma binary_exponent_bounds:
  assumes "0 < a"
  shows "2 powi binary_exponent a \<le> a" and "a < 2 powi (binary_exponent a + 1)"
proof -
  obtain p q where pq: "quotient_of a = (p, q)" by (cases "quotient_of a")
  then have q: "0 < q" and a: "a = of_int p / of_int q"
    using quotient_of_denom_pos quotient_of_div by blast+
  with assms have p: "0 < p" by (simp add: zero_less_divide_iff)
  define k where "k = bitlen p - bitlen q"
  note bp = bitlen_powi_bounds[OF p] and bq = bitlen_powi_bounds[OF q]
  have "2 powi (k - 1) = 2 powi (bitlen p - 1) / (2 powi bitlen q :: rat)"
    unfolding k_def by (simp add: power_int_diff[symmetric] algebra_simps)
  also have "\<dots> \<le> of_int p / of_int q"
    using bp(1) bq(2) p q by (intro frac_le) simp_all
  finally have lo: "2 powi (k - 1) \<le> a" by (simp add: a)
  have "a = of_int p / of_int q" by (rule a)
  also have "\<dots> < 2 powi bitlen p / (2 powi (bitlen q - 1) :: rat)"
    using bp(2) bq(1) p q by (intro frac_less) simp_all
  also have "\<dots> = 2 powi (k + 1)"
    unfolding k_def by (simp add: power_int_diff[symmetric] algebra_simps)
  finally have hi: "a < 2 powi (k + 1)" .
  have e: "binary_exponent a = (if 2 powi k \<le> a then k else k - 1)"
    by (simp add: binary_exponent_def pq k_def)
  show "2 powi binary_exponent a \<le> a" using lo by (simp add: e)
  show "a < 2 powi (binary_exponent a + 1)" using hi by (auto simp: e not_le)
qed

lemma to_double_unfold:
  assumes "x \<noteq> 0"
  shows "\<exists>m. m = round_half_even (\<bar>x\<bar> / 2 powi (max (binary_exponent \<bar>x\<bar>) (- 1022) - 52)) \<and>
           to_double x =
             (let r = of_int m * 2 powi (max (binary_exponent \<bar>x\<bar>) (- 1022) - 52)
              in if of_int (2 ^ 1024) \<le> r then (if 0 < x then Infinity else NegInfinity)
                 else Num (if 0 < x then r else - r))"
  using assms by (simp only: to_double_def Let_def if_False simp_thms)

lemma to_double_error:
  assumes "x \<noteq> 0" and "to_double x = Num y"
  shows "\<bar>y - x\<bar> \<le> 2 powi (max (binary_exponent \<bar>x\<bar>) (- 1022) - 52) / 2"
proof -
  define q :: rat where "q = 2 powi (max (binary_exponent \<bar>x\<bar>) (- 1022) - 52)"
  define a where "a = \<bar>x\<bar>"
  from to_double_unfold[OF assms(1)] obtain m where m: "m = round_half_even (a / q)"
    and td: "to_double x = (if of_int (2 ^ 1024) \<le> of_int m * q
               then (if 0 < x then Infinity else NegInfinity)
               else Num (if 0 < x then of_int m * q else - (of_int m * q)))"
    unfolding q_def a_def Let_def by blast
  have q: "0 < q" by (simp add: q_def)
  from assms(2) have y: "y = (if 0 < x then of_int m * q else - (of_int m * q))"
    unfolding td by (simp split: if_splits)
  have "\<bar>of_int m - a / q\<bar> \<le> 1 / 2" unfolding m by (rule round_half_even_bounds)
  then have "\<bar>of_int m - a / q\<bar> * q \<le> 1 / 2 * q"
    using q by (intro mult_right_mono) simp_all
  moreover have "\<bar>of_int m - a / q\<bar> * q = \<bar>of_int m - a / q\<bar> * \<bar>q\<bar>" using q by simp
  moreover have "\<dots> = \<bar>(of_int m - a / q) * q\<bar>" by (simp only: abs_mult)
  moreover have "(of_int m - a / q) * q = of_int m * q - a" using q by (simp add: left_diff_distrib)
  ultimately have "\<bar>of_int m * q - a\<bar> \<le> q / 2" by simp
  then show ?thesis unfolding q_def[symmetric] y a_def using assms(1)
    by (simp add: abs_if split: if_splits)
qed

lemma to_double_nonpositive:
  assumes "x \<le> 0"
  shows "to_double x = NegInfinity \<or> (\<exists>y\<le>0. to_double x = Num y)"
proof (cases "x = 0")
  case True
  then show ?thesis by (simp add: to_double_def)
next
  case False
  define q :: rat where "q = 2 powi (max (binary_exponent \<bar>x\<bar>) (- 1022) - 52)"
  from to_double_unfold[OF False] obtain m where m: "m = round_half_even (\<bar>x\<bar> / q)"
    and td: "to_double x = (if of_int (2 ^ 1024) \<le> of_int m * q
               then (if 0 < x then Infinity else NegInfinity)
               else Num (if 0 < x then of_int m * q else - (of_int m * q)))"
    unfolding q_def Let_def by blast
  have "0 \<le> m" unfolding m by (rule round_half_even_nonneg) (simp add: q_def)
  then have "0 \<le> of_int m * q" by (simp add: q_def)
  with False assms show ?thesis unfolding td by simp
qed

lemma binary_exponent_less:
  assumes "0 < a" and "a < 2 powi k"
  shows "binary_exponent a < k"
proof (rule ccontr)
  assume "\<not> binary_exponent a < k"
  then have "k \<le> binary_exponent a" by simp
  from power_int_increasing[OF this, of "2 :: rat"] binary_exponent_bounds(1)[OF assms(1)] assms(2)
  show False by simp
qed

lemma binary_exponent_ge:
  assumes "0 < a" and "2 powi k \<le> a"
  shows "k \<le> binary_exponent a"
proof (rule ccontr)
  assume "\<not> k \<le> binary_exponent a"
  then have "binary_exponent a + 1 \<le> k" by simp
  from power_int_increasing[OF this, of "2 :: rat"] binary_exponent_bounds(2)[OF assms(1)] assms(2)
  show False by simp
qed

lemma powi_split_53: "(2 powi (e + 1) :: rat) = 2 ^ 53 * 2 powi (e - 52)"
proof -
  have "e + 1 = 53 + (e - 52)" by simp
  then have "(2 powi (e + 1) :: rat) = 2 powi (53 + (e - 52))" by (simp only:)
  also have "\<dots> = 2 powi 53 * 2 powi (e - 52)" by (rule power_int_add) simp
  finally show ?thesis by simp
qed

lemma to_double_idem:
  assumes "to_double x = Num y"
  shows "to_double y = Num y"
proof (cases "y = 0")
  case True
  then show ?thesis by (simp add: to_double_def)
next
  case False
  have x0: "x \<noteq> 0" using assms False by (auto simp: to_double_def)
  define a where "a = \<bar>x\<bar>"
  define e where "e = max (binary_exponent a) (- 1022)"
  define q :: rat where "q = 2 powi (e - 52)"
  have a0: "0 < a" using x0 by (simp add: a_def)
  have q0: "0 < q" by (simp add: q_def)
  from to_double_unfold[OF x0] obtain m where m: "m = round_half_even (a / q)"
    and td: "to_double x = (if of_int (2 ^ 1024) \<le> of_int m * q
               then (if 0 < x then Infinity else NegInfinity)
               else Num (if 0 < x then of_int m * q else - (of_int m * q)))"
    unfolding q_def e_def a_def Let_def by blast
  define r :: rat where "r = of_int m * q"
  from assms have fin: "\<not> of_int (2 ^ 1024) \<le> r"
    and y: "y = (if 0 < x then r else - r)"
    unfolding td r_def[symmetric] by (simp_all split: if_splits)
  have "0 \<le> a / q" using a0 q0 by simp
  then have "0 \<le> m" unfolding m by (rule round_half_even_nonneg)
  moreover have "m \<noteq> 0" using False y by (auto simp: r_def split: if_splits)
  ultimately have m1: "1 \<le> m" by simp
  then have "(1 :: rat) \<le> of_int m" by (simp only: of_int_1_le_iff)
  then have r0: "0 < r" unfolding r_def using q0 by (simp add: zero_less_mult_iff)
  have ay: "\<bar>y\<bar> = r" and sy: "0 < y \<longleftrightarrow> 0 < x" using r0 y x0 by (auto split: if_splits)
  have e1022: "- 1022 \<le> e" by (simp add: e_def)
  have "binary_exponent a + 1 \<le> e + 1" by (simp add: e_def)
  from power_int_increasing[OF this, of "2 :: rat"] binary_exponent_bounds(2)[OF a0]
  have "a < 2 powi (e + 1)" by simp
  also have "(2 powi (e + 1) :: rat) = 2 ^ 53 * q"
    unfolding q_def by (rule powi_split_53)
  finally have "a / q < 2 ^ 53" using q0 by (simp add: divide_less_eq)
  moreover have "\<bar>of_int m - a / q\<bar> \<le> 1 / 2" unfolding m by (rule round_half_even_bounds)
  ultimately have "(of_int m :: rat) < of_int (2 ^ 53) + 1 / 2" by (simp add: abs_if split: if_splits)
  then have "(of_int m :: rat) < of_int (2 ^ 53 + 1)" by simp
  then have "m < 2 ^ 53 + 1" by (simp only: of_int_less_iff)
  then have m53: "m \<le> 2 ^ 53" by simp
  define e' where "e' = max (binary_exponent r) (- 1022)"
  define q' :: rat where "q' = 2 powi (e' - 52)"
  have q'0: "0 < q'" by (simp add: q'_def)
  have "\<exists>k :: int. r / q' = of_int k"
  proof (cases "m = 2 ^ 53")
    case True
    then have "r = 2 ^ 53 * q" by (simp add: r_def)
    also have "\<dots> = 2 powi (e + 1)"
      unfolding q_def by (rule powi_split_53[symmetric])
    finally have r: "r = 2 powi (e + 1)" .
    have "e + 1 \<le> binary_exponent r" using r0 by (rule binary_exponent_ge) (simp add: r)
    moreover have "binary_exponent r < e + 2"
      using r0 by (rule binary_exponent_less) (simp add: r power_int_strict_increasing)
    ultimately have "binary_exponent r = e + 1" by simp
    with e1022 have "e' = e + 1" by (simp add: e'_def)
    then have "q' = 2 powi (e + 1 - 52)" by (simp add: q'_def)
    then have "r / q' = of_int (2 ^ 52)"
      unfolding r using power_int_diff[of "2 :: rat" "e + 1" "e + 1 - 52"] by simp
    then show ?thesis ..
  next
    case False
    with m53 have "m < 2 ^ 53" by simp
    then have "(of_int m :: rat) < of_int (2 ^ 53)" by (simp only: of_int_less_iff)
    then have "r < 2 ^ 53 * q" unfolding r_def using q0 by simp
    also have "\<dots> = 2 powi (e + 1)"
      unfolding q_def by (rule powi_split_53[symmetric])
    finally have "binary_exponent r < e + 1" using r0 binary_exponent_less by blast
    with e1022 have le: "e' \<le> e" by (simp add: e'_def)
    have "e - 52 - (e' - 52) = int (nat (e - e'))" using le by simp
    then have "(2 powi (e - 52 - (e' - 52)) :: rat) = 2 powi int (nat (e - e'))" by (simp only:)
    moreover have "(2 powi (e - 52 - (e' - 52)) :: rat) = q / q'"
      unfolding q_def q'_def by (rule power_int_diff) simp
    ultimately have "q / q' = of_int (2 ^ nat (e - e'))" by (simp only: power_int_of_nat) simp
    then have "of_int m * (q / q') = (of_int (m * 2 ^ nat (e - e')) :: rat)" by simp
    then have "r / q' = of_int (m * 2 ^ nat (e - e'))"
      unfolding r_def by (simp only: times_divide_eq_right)
    then show ?thesis ..
  qed
  then obtain k :: int where k: "r / q' = of_int k" ..
  have "r / q' * q' = r" using q'0 by simp
  then have rr: "of_int (round_half_even (r / q')) * q' = r" unfolding k by simp
  from False have "y \<noteq> 0" .
  from to_double_unfold[OF this]
  have "to_double y =
          (if of_int (2 ^ 1024) \<le> of_int (round_half_even (r / q')) * q'
           then (if 0 < y then Infinity else NegInfinity)
           else Num (if 0 < y then of_int (round_half_even (r / q')) * q'
                     else - (of_int (round_half_even (r / q')) * q')))"
    unfolding ay e'_def[symmetric] q'_def[symmetric] Let_def by simp
  then have "to_double y = Num (if 0 < y then r else - r)"
    unfolding rr using fin by simp
  then show ?thesis using y sy by (simp split: if_splits)
qed

lemma to_double_is_double: "to_double x = Num y \<Longrightarrow> is_double y"
  unfolding is_double_def by (rule to_double_idem)

lemma to_double_of_int:
  assumes "\<bar>n\<bar> \<le> 2 ^ 53"
  shows "to_double (of_int n) = Num (of_int n)"
proof (cases "n = 0")
  case True
  then show ?thesis by (simp add: to_double_def)
next
  case False
  define a :: rat where "a = of_int \<bar>n\<bar>"
  define e where "e = binary_exponent a"
  define q :: rat where "q = 2 powi (e - 52)"
  have abs: "\<bar>of_int n :: rat\<bar> = a" by (simp add: a_def)
  have a1: "1 \<le> a" using False unfolding a_def by (simp only: of_int_1_le_iff)
  have "a \<le> of_int (2 ^ 53)" using assms unfolding a_def by (simp only: of_int_le_iff)
  then have a2: "a \<le> 2 ^ 53" by simp
  from a1 have "0 < a" by simp
  from binary_exponent_bounds[OF this]
  have lo: "2 powi e \<le> a" and hi: "a < 2 powi (e + 1)" by (simp_all add: e_def)
  have e0: "0 \<le> e"
  proof (rule ccontr)
    assume "\<not> 0 \<le> e"
    then have "e + 1 \<le> 0" by simp
    from power_int_increasing[OF this, of "2 :: rat"] have "2 powi (e + 1) \<le> (1 :: rat)" by simp
    with hi a1 show False by simp
  qed
  have e53: "e \<le> 53"
  proof (rule ccontr)
    assume "\<not> e \<le> 53"
    then have "54 \<le> e" by simp
    from power_int_increasing[OF this, of "2 :: rat"] have "2 ^ 54 \<le> (2 powi e :: rat)" by simp
    with lo a2 have "(2 :: rat) ^ 54 \<le> 2 ^ 53" by linarith
    then show False by simp
  qed
  have q0: "0 < q" by (simp add: q_def)
  have "\<exists>k :: int. a / q = of_int k"
  proof (cases "e = 53")
    case True
    with lo have "2 ^ 53 \<le> a" by simp
    with a2 have "a = 2 ^ 53" by simp
    moreover from True have "q = 2" by (simp add: q_def)
    ultimately have "a / q = of_int (2 ^ 52)" by simp
    then show ?thesis ..
  next
    case False
    with e53 have "e - 52 = - int (nat (52 - e))" by simp
    then have "q = 1 / 2 ^ nat (52 - e)"
      unfolding q_def by (simp only: power_int_minus_divide power_int_of_nat)
    then have "a / q = of_int (\<bar>n\<bar> * 2 ^ nat (52 - e))" by (simp add: a_def)
    then show ?thesis ..
  qed
  then obtain k :: int where k: "a / q = of_int k" ..
  have "a / q * q = a" using q0 by simp
  then have r: "of_int (round_half_even (a / q)) * q = a" unfolding k by simp
  have m: "max e (- 1022) = e" using e0 by simp
  have small: "\<not> of_int (2 ^ 1024) \<le> a"
  proof
    assume "of_int (2 ^ 1024) \<le> a"
    with a2 have "(2 :: rat) ^ 1024 \<le> 2 ^ 53" by simp
    then show False by simp
  qed
  from False have "(of_int n :: rat) \<noteq> 0" by simp
  from to_double_unfold[OF this]
  have "to_double (of_int n) =
          (if of_int (2 ^ 1024) \<le> of_int (round_half_even (a / q)) * q
           then (if 0 < (of_int n :: rat) then Infinity else NegInfinity)
           else Num (if 0 < (of_int n :: rat) then of_int (round_half_even (a / q)) * q
                     else - (of_int (round_half_even (a / q)) * q)))"
    unfolding abs e_def[symmetric] m q_def[symmetric] Let_def by simp
  then have "to_double (of_int n) = Num (if 0 < (of_int n :: rat) then a else - a)"
    unfolding r using small by simp
  then show ?thesis unfolding a_def by (simp add: abs_if)
qed

text \<open>
  \<open>resizeImage\<close> has no check of its own on the label size or the resolution. Whether it
  reaches the image library's processing is decided by the two rounded double products
  alone: the library refuses a width, then a height, that is not an integer from 1 to
  100000000. An integer size at an integer resolution has an exact product; a size at a
  resolution of 0 or more never gives a valid dimension unless the size is positive.
\<close>

lemma is_double_of_int: "\<bar>n\<bar> \<le> 2 ^ 53 \<Longrightarrow> is_double (of_int n)"
  unfolding is_double_def by (rule to_double_of_int)

lemma floor_of_int_half: "\<lfloor>(of_int k :: rat) + 1 / 2\<rfloor> = k"
  by (rule floor_unique) simp_all

lemma round_product_of_int:
  assumes "\<bar>a * b\<bar> \<le> 2 ^ 53"
  shows "round_product (Num (of_int a)) (Num (of_int b)) = Num (of_int (a * b))"
proof -
  have "js_double (js_mul (Num (of_int a)) (Num (of_int b))) = to_double (of_int (a * b))"
    by simp
  also have "\<dots> = Num (of_int (a * b))" using assms by (rule to_double_of_int)
  finally show ?thesis
    unfolding round_product_def by (simp only: Math_round.simps floor_of_int_half)
qed

lemma round_product_nonpositive:
  assumes "w \<le> 0" and "0 \<le> d"
  shows "\<not> valid_dimension (round_product (Num w) (Num d))"
proof -
  from assms have "w * d \<le> 0" by (simp add: mult_nonpos_nonneg)
  from to_double_nonpositive[OF this]
  consider "to_double (w * d) = NegInfinity" | y where "y \<le> 0" "to_double (w * d) = Num y"
    by blast
  then show ?thesis
  proof cases
    case 1
    then show ?thesis by (simp add: round_product_def)
  next
    case 2
    from 2(1) have "y + 1 / 2 < 1" by simp
    then have "\<lfloor>y + 1 / 2\<rfloor> < 1" by (simp add: floor_less_iff)
    then have "\<not> (1 :: rat) \<le> of_int \<lfloor>y + 1 / 2\<rfloor>" by (simp only: of_int_1_le_iff not_le)
    then show ?thesis using 2(2) by (simp add: round_product_def)
  qed
qed

lemma round_product_NaN: "round_product a NaN = NaN"
proof -
  have "js_mul a NaN = NaN" by (cases a) simp_all
  then show ?thesis by (simp add: round_product_def)
qed

lemma sharp_fit_cases:
  "resizeImage toBuffer buf labelSize dpi fitMode =
     sharp_resize toBuffer buf (round_product (fst labelSize) dpi)
       (round_product (snd labelSize) dpi)
       (case fitMode of Fit \<Rightarrow> SharpContain | Fill \<Rightarrow> SharpCover | Stretch \<Rightarrow> SharpFill)"
  by (cases fitMode) (simp_all add: resizeImage_def Let_def)

lemma resizeImage_NaN_dpi:
  "resizeImage toBuffer buf labelSize NaN fitMode = Inl (SharpInvalidParameter ''width'' NaN)"
  by (simp add: sharp_fit_cases sharp_resize_def round_product_NaN)

lemma valid_dimension_of_int: "valid_dimension (Num (of_int n)) \<longleftrightarrow> 1 \<le> n \<and> n \<le> 100000000"
proof -
  have "(of_int n :: rat) \<le> 100000000 \<longleftrightarrow> n \<le> 100000000"
    using of_int_le_iff[of n 100000000, where 'a = rat] by simp
  then show ?thesis by simp
qed

text \<open>
  The product is the double product. The decimal literal \<open>0.7\<close> is the double nearest to
  \<open>7 / 10\<close>, slightly below it; times 45 the double product is just below 31.5 and rounds
  to 31, where the exact product of \<open>7 / 10\<close> and 45 is 31.5 and rounds to 32. Likewise
  \<open>2.01 * 150\<close> rounds to 301, and \<open>0.7 * 5\<close>, whose exact value is below 3.5, is the
  double 3.5 and rounds to 4.
\<close>

lemma resizeImage_double_product:
  "js_double (Num (7 / 10)) = Num (3152519739159347 / 4503599627370496)"
  "js_double (js_mul (js_double (Num (7 / 10))) (Num 45)) =
     Num (8866461766385663 / 281474976710656)"
  "round_product (js_double (Num (7 / 10))) (Num 45) = Num 31"
  "Math_round (js_mul (Num (7 / 10)) (Num 45)) = Num 32"
  "round_product (js_double (Num (201 / 100))) (Num 150) = Num 301"
  "round_product (js_double (Num (7 / 10))) (Num 5) = Num 4"
  "resizeImage (\<lambda>b w h f. None) () (js_double (Num (7 / 10)), Num 6) (Num 45) Fit =
     Inr \<lparr> source = (), out_width = 31, out_height = 270, out_fit = SharpContain \<rparr>"
  by code_simp+




text \<open>At the other end, 4 inches at 30000000 dpi is a width of 120000000, refused as well.\<close>

lemma resizeImage_dpi_too_large_fails:
  "resizeImage (\<lambda>b w h f. None) () (Num 4, Num 6) (Num 30000000) Fit =
     Inl (SharpInvalidParameter ''width'' (Num 120000000))"
  by code_simp

text \<open>
  C6. For every target size (doubles \<open>w\<close>, \<open>h\<close>) with \<open>w \<le> 0\<close> or \<open>h \<le> 0\<close>, at every
  resolution \<open>d \<ge> 0\<close> (a double),
  \<open>resizeImage\<close> fails, and it fails because of the dimensions: the first target dimension
  that is not an integer from 1 to 100000000 (the width if it is invalid, else the
  height) is refused by the image library with its invalid-parameter error for that
  dimension, before the buffer is processed. This is the failure that the specification's
  taxonomy calls \<open>InvalidDimensions\<close>.
\<close>

theorem resizeImage_nonpositive_size:
  assumes "is_double w" and "is_double h" and "is_double d"
      and "w \<le> 0 \<or> h \<le> 0" and "0 \<le> d"
  shows "resizeImage toBuffer buf (Num w, Num h) (Num d) fitMode =
           (if \<not> valid_dimension (round_product (Num w) (Num d))
            then Inl (SharpInvalidParameter ''width'' (round_product (Num w) (Num d)))
            else Inl (SharpInvalidParameter ''height'' (round_product (Num h) (Num d))))"
proof (cases "valid_dimension (round_product (Num w) (Num d))")
  case False
  then show ?thesis by (simp add: sharp_fit_cases sharp_resize_def)
next
  case True
  with round_product_nonpositive[OF _ assms(5), of w] have "\<not> w \<le> 0" by blast
  with assms(4) have "h \<le> 0" by simp
  from round_product_nonpositive[OF this assms(5)] True show ?thesis
    by (simp add: sharp_fit_cases sharp_resize_def)
qed

text \<open>Width 4, height 0, at 300 dpi: the height 0 is refused.\<close>

theorem resizeImage_nonpositive_size_witness:
  "resizeImage (\<lambda>b w h f. None) () (Num 4, Num 0) (Num 300) Fit =
     Inl (SharpInvalidParameter ''height'' (Num 0))"
proof -
  have d: "is_double 4" "is_double 0" "is_double 300"
    using is_double_of_int[of 4] is_double_of_int[of 0] is_double_of_int[of 300] by simp_all
  have a: "(4 :: rat) \<le> 0 \<or> (0 :: rat) \<le> 0" and b: "(0 :: rat) \<le> 300" by simp_all
  have w: "round_product (Num 4) (Num 300) = Num (of_int 1200)"
    and h: "round_product (Num 0) (Num 300) = Num (of_int 0)"
    using round_product_of_int[of 4 300] round_product_of_int[of 0 300] by simp_all
  from resizeImage_nonpositive_size[OF d a b, of "\<lambda>b w h f. None" "()" Fit] show ?thesis
    unfolding w h valid_dimension_of_int by simp
qed

text \<open>
  A resolution is a number that is not negative. For a negative size at a negative
  number in its place the products are positive, and the code does not tell them apart
  from those of a positive size.
\<close>

lemma resizeImage_negative_size_negative_dpi:
  "resizeImage (\<lambda>b w h f. None) () (Num (- 4), Num (- 6)) (Num (- 300)) Fit =
     Inr \<lparr> source = (), out_width = 1200, out_height = 1800, out_fit = SharpContain \<rparr>"
  by code_simp

subsection \<open>Loading\<close>

text \<open>
  The supported set holds eight extensions. The listing of the error message is the
  sorted set joined by a comma and a space; sorted by code units, \<open>.jpeg\<close> comes before
  \<open>.jpg\<close>.
\<close>

lemma SUPPORTED_EXTS_list:
  "SUPPORTED_EXTS = [''.png'', ''.jpg'', ''.jpeg'', ''.bmp'', ''.tiff'', ''.tif'', ''.webp'', ''.pdf'']"
  by (simp add: SUPPORTED_EXTS_def js_set_of_def SUPPORTED_IMAGE_EXTS_def SUPPORTED_PDF_EXTS_def)

lemma SUPPORTED_EXTS_set:
  "set SUPPORTED_EXTS = set SUPPORTED_IMAGE_EXTS \<union> set SUPPORTED_PDF_EXTS"
  by (auto simp: SUPPORTED_EXTS_def js_set_of_def)

lemma SUPPORTED_EXTS_sorted:
  "sort SUPPORTED_EXTS =
     [''.bmp'', ''.jpeg'', ''.jpg'', ''.pdf'', ''.png'', ''.tif'', ''.tiff'', ''.webp'']"
  unfolding SUPPORTED_EXTS_list by code_simp

lemma supported_listing:
  "js_join '', '' (sort SUPPORTED_EXTS) = ''.bmp, .jpeg, .jpg, .pdf, .png, .tif, .tiff, .webp''"
  unfolding SUPPORTED_EXTS_sorted by simp

lemma ext_label_gif: "toLowerCase (extname ''scans/Label.GIF'') = ''.gif''"
  by code_simp

lemma gif_unsupported: "''.gif'' \<notin> set SUPPORTED_EXTS"
  unfolding SUPPORTED_EXTS_list by simp

text \<open>
  C7 (amended). For every file name whose lower-cased extension \<open>ext\<close> is outside the
  supported set, \<open>loadImage\<close> fails, and so does the web route when that file is the first
  upload; the error names the rejected extension and lists the full supported set in
  sorted order, which is \<open>.bmp, .jpeg, .jpg, .pdf, .png, .tif, .tiff, .webp\<close>. (A second
  upload with an unsupported extension is not rejected by the web route: it is left out.)
\<close>

theorem unsupported_extension_rejected:
  assumes "toLowerCase (extname inputPath) = ext" and "ext \<notin> set SUPPORTED_EXTS"
  shows "loadImage decodeFile loadImageFromPdf inputPath =
           Inl (Error (''Unsupported file format '' @ [CHR 0x27] @ ext @ [CHR 0x27] @
                  ''. Supported: .bmp, .jpeg, .jpg, .pdf, .png, .tif, .tiff, .webp''))
       \<and> resize_route_files (Some \<lparr> originalname = inputPath, buffer = b \<rparr>) file2 =
           Inl (Error (''Unsupported format '' @ [CHR 0x27] @ ext @ [CHR 0x27] @
                  ''. Supported: .bmp, .jpeg, .jpg, .pdf, .png, .tif, .tiff, .webp''))"
proof
  from assms(2) have "ext \<notin> set SUPPORTED_IMAGE_EXTS" "ext \<notin> set SUPPORTED_PDF_EXTS"
    by (simp_all add: SUPPORTED_EXTS_set)
  then show "loadImage decodeFile loadImageFromPdf inputPath =
           Inl (Error (''Unsupported file format '' @ [CHR 0x27] @ ext @ [CHR 0x27] @
                  ''. Supported: .bmp, .jpeg, .jpg, .pdf, .png, .tif, .tiff, .webp''))"
    by (simp add: loadImage_def assms(1) unsupported_file_format_def supported_listing)
  show "resize_route_files (Some \<lparr> originalname = inputPath, buffer = b \<rparr>) file2 =
           Inl (Error (''Unsupported format '' @ [CHR 0x27] @ ext @ [CHR 0x27] @
                  ''. Supported: .bmp, .jpeg, .jpg, .pdf, .png, .tif, .tiff, .webp''))"
    using assms(2)
    by (simp add: resize_route_files_def assms(1) unsupported_format_def supported_listing)
qed

text \<open>The extension of \<open>scans/Label.GIF\<close> is \<open>.gif\<close>, which is not supported.\<close>

theorem unsupported_extension_rejected_witness:
  "loadImage (\<lambda>p. Inr ()) (\<lambda>p. Inr ()) ''scans/Label.GIF'' =
     Inl (Error (''Unsupported file format '' @ [CHR 0x27] @ ''.gif'' @ [CHR 0x27] @
            ''. Supported: .bmp, .jpeg, .jpg, .pdf, .png, .tif, .tiff, .webp''))
   \<and> resize_route_files (Some \<lparr> originalname = ''scans/Label.GIF'', buffer = () \<rparr>) None =
     Inl (Error (''Unsupported format '' @ [CHR 0x27] @ ''.gif'' @ [CHR 0x27] @
            ''. Supported: .bmp, .jpeg, .jpg, .pdf, .png, .tif, .tiff, .webp''))"
  by (rule unsupported_extension_rejected[OF ext_label_gif gif_unsupported])

lemma ext_a_png: "toLowerCase (extname ''a.png'') = ''.png''"
  by code_simp

lemma ext_b_gif: "toLowerCase (extname ''b.gif'') = ''.gif''"
  by code_simp

text \<open>
  C7 as stated fails on the order of the listing and on the second upload: for \<open>b.gif\<close>
  the message lists \<open>.jpeg\<close> before \<open>.jpg\<close>, so the sorted set is not the sequence
  \<open>.bmp, .jpg, .jpeg, .pdf, .png, .tif, .tiff, .webp\<close>; and the web route, given
  \<open>a.png\<close> and \<open>b.gif\<close>, answers with no error and passes on the first file only.
\<close>

theorem unsupported_listing_order:
  "loadImage (\<lambda>p. Inr ()) (\<lambda>p. Inr ()) ''b.gif'' =
     Inl (Error (''Unsupported file format '' @ [CHR 0x27] @ ''.gif'' @ [CHR 0x27] @
            ''. Supported: .bmp, .jpeg, .jpg, .pdf, .png, .tif, .tiff, .webp''))
   \<and> sort SUPPORTED_EXTS \<noteq>
       [''.bmp'', ''.jpg'', ''.jpeg'', ''.pdf'', ''.png'', ''.tif'', ''.tiff'', ''.webp'']
   \<and> resize_route_files (Some \<lparr> originalname = ''a.png'', buffer = () \<rparr>)
         (Some \<lparr> originalname = ''b.gif'', buffer = () \<rparr>) =
       Inr ((), ''.png'', None, Some ''.gif'')"
proof (intro conjI)
  have "''.gif'' \<notin> set SUPPORTED_IMAGE_EXTS" "''.gif'' \<notin> set SUPPORTED_PDF_EXTS"
    using gif_unsupported by (simp_all add: SUPPORTED_EXTS_set)
  then show "loadImage (\<lambda>p. Inr ()) (\<lambda>p. Inr ()) ''b.gif'' =
     Inl (Error (''Unsupported file format '' @ [CHR 0x27] @ ''.gif'' @ [CHR 0x27] @
            ''. Supported: .bmp, .jpeg, .jpg, .pdf, .png, .tif, .tiff, .webp''))"
    by (simp add: loadImage_def ext_b_gif unsupported_file_format_def supported_listing)
  show "sort SUPPORTED_EXTS \<noteq>
       [''.bmp'', ''.jpg'', ''.jpeg'', ''.pdf'', ''.png'', ''.tif'', ''.tiff'', ''.webp'']"
    unfolding SUPPORTED_EXTS_sorted by simp
  have "''.png'' \<in> set SUPPORTED_EXTS" unfolding SUPPORTED_EXTS_list by simp
  then show "resize_route_files (Some \<lparr> originalname = ''a.png'', buffer = () \<rparr>)
         (Some \<lparr> originalname = ''b.gif'', buffer = () \<rparr>) =
       Inr ((), ''.png'', None, Some ''.gif'')"
    using gif_unsupported by (simp add: resize_route_files_def ext_a_png ext_b_gif)
qed

subsection \<open>Auto-crop: the bounding box\<close>

text \<open>
  The two nested loops are one pass over all \<open>(row, column)\<close> pairs; the pass keeps the
  running minima and maxima of the dark pixels it has seen. So the search finds a pixel
  iff the image has a dark one, and then the box is the tightest one around the dark
  pixels, right and bottom bounds exclusive.
\<close>

lemma nested_fold_product:
  "fold (\<lambda>y. fold (f y) xs) ys s = fold (\<lambda>(y, x). f y x) (List.product ys xs) s"
  by (induction ys arbitrary: s) (simp_all add: fold_map comp_def)

lemma bbox_fold_closed:
  "fold (\<lambda>(y, x). bbox_pixel thr img y x) ps s =
     (let D = filter (\<lambda>(y, x). is_dark thr img (y * width img + x)) ps in
      \<lparr> bx0 = fold min (map snd D) (bx0 s),
        by0 = fold min (map fst D) (by0 s),
        bx1 = fold max (map (Suc \<circ> snd) D) (bx1 s),
        by1 = fold max (map (Suc \<circ> fst) D) (by1 s),
        found = (found s \<or> D \<noteq> []) \<rparr>)"
proof (induction ps arbitrary: s)
  case Nil
  show ?case by simp
next
  case (Cons p ps)
  obtain y x where p: "p = (y, x)" by (cases p)
  have step: "bbox_pixel thr img y x s =
      (if is_dark thr img (y * width img + x)
       then \<lparr> bx0 = min x (bx0 s), by0 = min y (by0 s),
              bx1 = max (Suc x) (bx1 s), by1 = max (Suc y) (by1 s), found = True \<rparr>
       else s)"
    by (simp add: bbox_pixel_def min_def max_def)
  show ?case
    unfolding p by (simp add: Cons.IH Let_def step)
qed

lemma find_bbox_closed:
  "find_bbox thr img =
     (let D = dark_pixels thr img in
      \<lparr> bx0 = fold min (map snd D) (width img),
        by0 = fold min (map fst D) (height img),
        bx1 = fold max (map (Suc \<circ> snd) D) 0,
        by1 = fold max (map (Suc \<circ> fst) D) 0,
        found = (D \<noteq> []) \<rparr>)"
  by (simp add: find_bbox_def nested_fold_product bbox_fold_closed dark_pixels_def Let_def)

lemma fold_min_Min: "fold min xs (a::nat) = Min (insert a (set xs))"
  using Min.set_eq_fold[of a xs] by simp

lemma fold_max_Max: "fold max xs (a::nat) = Max (insert a (set xs))"
  using Max.set_eq_fold[of a xs] by simp

lemma set_dark_pixels:
  "set (dark_pixels thr img) =
     {(y, x). y < height img \<and> x < width img \<and> is_dark thr img (y * width img + x)}"
  by (auto simp: dark_pixels_def)

lemma find_bbox_found: "found (find_bbox thr img) \<longleftrightarrow> dark_pixels thr img \<noteq> []"
  by (simp add: find_bbox_closed Let_def)

lemma find_bbox_bx0:
  assumes "dark_pixels thr img \<noteq> []"
  shows "bx0 (find_bbox thr img) = Min (set (map snd (dark_pixels thr img)))"
proof -
  let ?X = "set (map snd (dark_pixels thr img))"
  have ne: "?X \<noteq> {}" using assms by simp
  have "\<forall>x \<in> ?X. x < width img" by (auto simp: set_dark_pixels)
  moreover have "Min ?X \<in> ?X" using ne by (intro Min_in) simp_all
  ultimately have "Min ?X < width img" by blast
  moreover have "Min (insert (width img) ?X) = min (width img) (Min ?X)"
    using ne by (intro Min_insert) simp_all
  ultimately have "Min (insert (width img) ?X) = Min ?X" by simp
  then show ?thesis by (simp add: find_bbox_closed Let_def fold_min_Min)
qed

lemma find_bbox_by0:
  assumes "dark_pixels thr img \<noteq> []"
  shows "by0 (find_bbox thr img) = Min (set (map fst (dark_pixels thr img)))"
proof -
  let ?X = "set (map fst (dark_pixels thr img))"
  have ne: "?X \<noteq> {}" using assms by simp
  have "\<forall>x \<in> ?X. x < height img" by (auto simp: set_dark_pixels)
  moreover have "Min ?X \<in> ?X" using ne by (intro Min_in) simp_all
  ultimately have "Min ?X < height img" by blast
  moreover have "Min (insert (height img) ?X) = min (height img) (Min ?X)"
    using ne by (intro Min_insert) simp_all
  ultimately have "Min (insert (height img) ?X) = Min ?X" by simp
  then show ?thesis by (simp add: find_bbox_closed Let_def fold_min_Min)
qed

lemma Max_Suc_image:
  assumes "finite S" "S \<noteq> {}"
  shows "Max (insert 0 ((\<lambda>p. Suc (f p)) ` S)) = Suc (Max (f ` S))"
proof -
  have "Max (Suc ` (f ` S)) = Suc (Max (f ` S))"
    using assms by (intro mono_Max_commute[symmetric]) (simp_all add: mono_def)
  moreover have "Suc ` (f ` S) = (\<lambda>p. Suc (f p)) ` S" by auto
  ultimately show ?thesis using assms by simp
qed

lemma find_bbox_bx1:
  assumes "dark_pixels thr img \<noteq> []"
  shows "bx1 (find_bbox thr img) = Suc (Max (set (map snd (dark_pixels thr img))))"
  using assms Max_Suc_image[of "set (dark_pixels thr img)" snd]
  by (simp add: find_bbox_closed Let_def fold_max_Max comp_def)

lemma find_bbox_by1:
  assumes "dark_pixels thr img \<noteq> []"
  shows "by1 (find_bbox thr img) = Suc (Max (set (map fst (dark_pixels thr img))))"
  using assms Max_Suc_image[of "set (dark_pixels thr img)" fst]
  by (simp add: find_bbox_closed Let_def fold_max_Max comp_def)


text \<open>A box that was found is not empty and lies inside the image.\<close>

lemma find_bbox_box:
  assumes "found (find_bbox thr img)"
  shows "bx0 (find_bbox thr img) < bx1 (find_bbox thr img)
       \<and> bx1 (find_bbox thr img) \<le> width img
       \<and> by0 (find_bbox thr img) < by1 (find_bbox thr img)
       \<and> by1 (find_bbox thr img) \<le> height img"
proof -
  let ?D = "dark_pixels thr img"
  let ?X = "set (map snd ?D)" and ?Y = "set (map fst ?D)"
  from assms have ne: "?D \<noteq> []" by (simp add: find_bbox_found)
  then have neX: "?X \<noteq> {}" and neY: "?Y \<noteq> {}" by simp_all
  have "Min ?X \<le> Max ?X" using neX by (intro Min_le Max_in) simp_all
  moreover have "Max ?X \<in> ?X" using neX by (intro Max_in) simp_all
  then have "Max ?X < width img" by (auto simp: set_dark_pixels)
  moreover have "Min ?Y \<le> Max ?Y" using neY by (intro Min_le Max_in) simp_all
  moreover have "Max ?Y \<in> ?Y" using neY by (intro Max_in) simp_all
  then have "Max ?Y < height img" by (auto simp: set_dark_pixels)
  ultimately show ?thesis
    by (simp add: find_bbox_bx0[OF ne] find_bbox_bx1[OF ne] find_bbox_by0[OF ne]
          find_bbox_by1[OF ne])
qed

lemma find_bbox_area:
  assumes "found (find_bbox thr img)"
  shows "(bx1 (find_bbox thr img) - bx0 (find_bbox thr img)) *
         (by1 (find_bbox thr img) - by0 (find_bbox thr img)) = dark_bbox_area thr img"
proof -
  from assms have ne: "dark_pixels thr img \<noteq> []" by (simp add: find_bbox_found)
  show ?thesis
    by (simp add: find_bbox_bx0[OF ne] find_bbox_bx1[OF ne] find_bbox_by0[OF ne]
          find_bbox_by1[OF ne] dark_bbox_area_def Let_def ne)
qed

lemma dark_pixels_empty_iff:
  "dark_pixels thr img = [] \<longleftrightarrow>
     (\<forall>y < height img. \<forall>x < width img. \<not> is_dark thr img (y * width img + x))"
proof -
  have "dark_pixels thr img = [] \<longleftrightarrow> set (dark_pixels thr img) = {}" by simp
  also have "\<dots> \<longleftrightarrow> (\<forall>y < height img. \<forall>x < width img. \<not> is_dark thr img (y * width img + x))"
    unfolding set_dark_pixels by auto
  finally show ?thesis .
qed

text \<open>
  A line is a border line iff strictly more than half of its pixels within the span are
  dark: twice the number of dark pixels exceeds the length of the span.
\<close>

lemma length_filter_upt:
  "length (filter P [a..<b]) = card {x. a \<le> x \<and> x < b \<and> P x}"
proof -
  have "set (filter P [a..<b]) = {x. a \<le> x \<and> x < b \<and> P x}" by auto
  moreover have "distinct (filter P [a..<b])" by simp
  ultimately show ?thesis using distinct_card[of "filter P [a..<b]"] by simp
qed

lemma more_than_half:
  "rat_of_nat n * (1 / 2) < rat_of_nat d \<longleftrightarrow> n < 2 * d"
proof -
  have "rat_of_nat n * (1 / 2) < rat_of_nat d \<longleftrightarrow> rat_of_nat n < rat_of_nat (2 * d)"
    by (simp add: field_simps)
  also have "\<dots> \<longleftrightarrow> n < 2 * d" by (rule of_nat_less_iff)
  finally show ?thesis .
qed

lemma rowIsBorder_iff:
  "rowIsBorder thr img ry x0 x1 \<longleftrightarrow>
     x1 - x0 < 2 * card {x. x0 \<le> x \<and> x < x1 \<and> is_dark thr img (ry * width img + x)}"
  unfolding rowIsBorder_def Let_def more_than_half length_filter_upt by (rule refl)

lemma colIsBorder_iff:
  "colIsBorder thr img cx y0 y1 \<longleftrightarrow>
     y1 - y0 < 2 * card {y. y0 \<le> y \<and> y < y1 \<and> is_dark thr img (y * width img + cx)}"
  unfolding colIsBorder_def Let_def more_than_half length_filter_upt by (rule refl)

subsection \<open>Auto-crop: the inward scan and the padding\<close>

text \<open>
  A scan from the near edge ends at the edge or fewer than \<open>n\<close> lines in; a scan from
  the far edge ends at the edge or fewer than \<open>n - 1\<close> lines in. With
  \<open>n \<le> box / 2\<close> the two cannot cross, so the scanned rectangle is not empty, the
  padded one is a valid extract region, and the extraction cannot fail.
\<close>

lemma scan_up_range:
  "(case find P [a ..< a + n] of Some y \<Rightarrow> y | None \<Rightarrow> a) = r \<Longrightarrow>
   a \<le> r \<and> (r = a \<or> r < a + n)"
  by (auto split: option.splits simp: find_Some_iff)

lemma scan_down_range:
  "(case find P (rev [Suc (c - n) ..< c]) of Some y \<Rightarrow> y + 1 | None \<Rightarrow> c) = r \<Longrightarrow>
   r \<le> c \<and> (r = c \<or> c - n + 2 \<le> r)"
proof (cases "find P (rev [Suc (c - n) ..< c])")
  case None
  then show "(case find P (rev [Suc (c - n) ..< c]) of Some y \<Rightarrow> y + 1 | None \<Rightarrow> c) = r \<Longrightarrow>
   r \<le> c \<and> (r = c \<or> c - n + 2 \<le> r)" by simp
next
  case (Some y)
  then have "y \<in> set (rev [Suc (c - n) ..< c])"
    unfolding find_Some_iff by (metis nth_mem)
  then have "Suc (c - n) \<le> y" "y < c" by simp_all
  with Some show "(case find P (rev [Suc (c - n) ..< c]) of Some y \<Rightarrow> y + 1 | None \<Rightarrow> c) = r \<Longrightarrow>
   r \<le> c \<and> (r = c \<or> c - n + 2 \<le> r)" by auto
qed

lemma scan_pair_ordered:
  assumes "a < c" and "n = scan_limit (c - a)"
    and l: "(case find P [a ..< a + n] of Some y \<Rightarrow> y | None \<Rightarrow> a) = l"
    and r: "(case find Q (rev [Suc (c - n) ..< c]) of Some y \<Rightarrow> y + 1 | None \<Rightarrow> c) = r"
  shows "a \<le> l \<and> l < r \<and> r \<le> c"
proof -
  have n: "2 * n \<le> c - a" using assms(2) by (simp add: scan_limit_def)
  from scan_up_range[OF l] scan_down_range[OF r] assms(1) n show ?thesis by auto
qed

lemma scan_inward_inside:
  assumes "bx0 b < bx1 b" and "by0 b < by1 b"
  shows "bx0 b \<le> edge_left (scan_inward thr img b)
       \<and> edge_left (scan_inward thr img b) < edge_right (scan_inward thr img b)
       \<and> edge_right (scan_inward thr img b) \<le> bx1 b
       \<and> by0 b \<le> edge_top (scan_inward thr img b)
       \<and> edge_top (scan_inward thr img b) < edge_bottom (scan_inward thr img b)
       \<and> edge_bottom (scan_inward thr img b) \<le> by1 b"
  using scan_pair_ordered[OF assms(1) refl refl refl] scan_pair_ordered[OF assms(2) refl refl refl]
  by (simp add: scan_inward_def Let_def)

lemma sharp_extract_expand:
  assumes "edge_left e < edge_right e" and "edge_right e \<le> width img"
    and "edge_top e < edge_bottom e" and "edge_bottom e \<le> height img"
  shows "sharp_extract img (expand img e) = Inr (Crop (expand img e))"
  using assms by (simp add: sharp_extract_def expand_def pad_def Let_def)

lemma autoCropLabel_cases:
  "autoCropLabel img thr ratio =
     (if dark_pixels thr img = []
         \<or> rat_of_nat (dark_bbox_area thr img) < rat_of_nat (width img * height img) * ratio
      then Inr NoCropNeeded
      else Inr (Crop (expand img (scan_inward thr img (find_bbox thr img)))))"
proof (cases "found (find_bbox thr img)")
  case False
  then show ?thesis by (simp add: autoCropLabel_def find_bbox_found)
next
  case True
  note box = find_bbox_box[OF True]
  from scan_inward_inside[of "find_bbox thr img" thr img] box
  have "sharp_extract img (expand img (scan_inward thr img (find_bbox thr img))) =
      Inr (Crop (expand img (scan_inward thr img (find_bbox thr img))))"
    by (intro sharp_extract_expand) auto
  moreover have "rat_of_nat (bx1 (find_bbox thr img) - bx0 (find_bbox thr img)) *
      rat_of_nat (by1 (find_bbox thr img) - by0 (find_bbox thr img)) =
      rat_of_nat (dark_bbox_area thr img)"
    unfolding find_bbox_area[OF True, symmetric] by simp
  ultimately show ?thesis using True
    by (simp add: autoCropLabel_def Let_def find_bbox_found)
qed


text \<open>
  C2. \<open>detectCrop\<close> (\<open>autoCropLabel\<close> with its default parameters, threshold 80 and
  ratio 0.05) returns the input buffer itself, \<open>NoCropNeeded\<close>, if and only if either
  no pixel of the image is dark (luminance below 80) or the area of the bounding box of
  the dark pixels is less than 0.05 times the area of the image; for every other input
  it returns a crop, the extract of the padded scan rectangle.
\<close>

theorem detectCrop_NoCropNeeded_iff:
  "(detectCrop img = Inr NoCropNeeded \<longleftrightarrow>
      dark_pixels 80 img = []
      \<or> rat_of_nat (dark_bbox_area 80 img) < 5 / 100 * rat_of_nat (width img * height img))
   \<and> (detectCrop img \<noteq> Inr NoCropNeeded \<longrightarrow>
        detectCrop img = Inr (Crop (expand img (scan_inward 80 img (find_bbox 80 img)))))"
  by (simp add: detectCrop_def borderThreshold_default_def minAreaRatio_default_def
        autoCropLabel_cases mult.commute)

text \<open>
  A white image and a single dark pixel in 21 are passed through; ten black pixels in
  the middle of a row of 30 are cropped to columns 2 to 28.
\<close>

theorem detectCrop_NoCropNeeded_iff_witness:
  "detectCrop img_white = Inr NoCropNeeded
   \<and> detectCrop img_speck = Inr NoCropNeeded
   \<and> detectCrop img_strip =
       Inr (Crop \<lparr> rect_left = 2, rect_top = 0, rect_right = 28, rect_bottom = 1 \<rparr>)"
proof (intro conjI)
  have "dark_pixels 80 img_white = []" by code_simp
  with detectCrop_NoCropNeeded_iff[of img_white]
  show "detectCrop img_white = Inr NoCropNeeded" by simp
  have "rat_of_nat (dark_bbox_area 80 img_speck)
      < 5 / 100 * rat_of_nat (width img_speck * height img_speck)" by code_simp
  with detectCrop_NoCropNeeded_iff[of img_speck]
  show "detectCrop img_speck = Inr NoCropNeeded" by simp
  have "dark_pixels 80 img_strip \<noteq> []" by code_simp
  moreover have "\<not> rat_of_nat (dark_bbox_area 80 img_strip)
      < 5 / 100 * rat_of_nat (width img_strip * height img_strip)" by code_simp
  moreover have "expand img_strip (scan_inward 80 img_strip (find_bbox 80 img_strip)) =
      \<lparr> rect_left = 2, rect_top = 0, rect_right = 28, rect_bottom = 1 \<rparr>" by code_simp
  ultimately show "detectCrop img_strip =
       Inr (Crop \<lparr> rect_left = 2, rect_top = 0, rect_right = 28, rect_bottom = 1 \<rparr>)"
    using detectCrop_NoCropNeeded_iff[of img_strip] by simp
qed

text \<open>
  C4. Whenever \<open>autoCropLabel\<close> returns a crop, its rectangle is the rectangle found by
  the inward scan moved out by exactly 8 pixels on each of the four sides, left and top
  clamped at 0, right and bottom clamped at the image width and height; so it contains
  the scanned rectangle and stays within the image.
\<close>

theorem autoCropLabel_padding:
  assumes "autoCropLabel img thr ratio = Inr (Crop r)"
  shows "rect_left r = max (int (edge_left (scan_inward thr img (find_bbox thr img))) - 8) 0
       \<and> rect_top r = max (int (edge_top (scan_inward thr img (find_bbox thr img))) - 8) 0
       \<and> rect_right r =
           min (int (edge_right (scan_inward thr img (find_bbox thr img))) + 8) (int (width img))
       \<and> rect_bottom r =
           min (int (edge_bottom (scan_inward thr img (find_bbox thr img))) + 8) (int (height img))
       \<and> rect_left r \<le> int (edge_left (scan_inward thr img (find_bbox thr img)))
       \<and> rect_top r \<le> int (edge_top (scan_inward thr img (find_bbox thr img)))
       \<and> int (edge_right (scan_inward thr img (find_bbox thr img))) \<le> rect_right r
       \<and> int (edge_bottom (scan_inward thr img (find_bbox thr img))) \<le> rect_bottom r
       \<and> 0 \<le> rect_left r \<and> 0 \<le> rect_top r
       \<and> rect_right r \<le> int (width img) \<and> rect_bottom r \<le> int (height img)"
proof -
  let ?b = "find_bbox thr img"
  let ?e = "scan_inward thr img ?b"
  from assms have r: "r = expand img ?e" and ne: "dark_pixels thr img \<noteq> []"
    by (auto simp: autoCropLabel_cases split: if_splits)
  from ne have "found ?b" by (simp add: find_bbox_found)
  note box = find_bbox_box[OF this]
  from box scan_inward_inside[of ?b thr img]
  have "edge_right ?e \<le> width img" "edge_bottom ?e \<le> height img" by auto
  then show ?thesis by (simp add: r expand_def pad_def)
qed

text \<open>
  The row of 30 pixels: the scan leaves the box at columns 10 to 20 and row 0 to 1; the
  crop is columns 2 to 28, with top and bottom clamped to 0 and 1.
\<close>

theorem autoCropLabel_padding_witness:
  "detectCrop img_strip =
     Inr (Crop \<lparr> rect_left = 2, rect_top = 0, rect_right = 28, rect_bottom = 1 \<rparr>)
   \<and> scan_inward borderThreshold_default img_strip (find_bbox borderThreshold_default img_strip) =
       \<lparr> edge_left = 10, edge_top = 0, edge_right = 20, edge_bottom = 1 \<rparr>
   \<and> (2 :: int) = max (10 - 8) 0 \<and> (0 :: int) = max (0 - 8) 0
   \<and> (28 :: int) = min (20 + 8) 30 \<and> (1 :: int) = min (1 + 8) 1"
proof -
  have c: "autoCropLabel img_strip borderThreshold_default minAreaRatio_default =
      Inr (Crop \<lparr> rect_left = 2, rect_top = 0, rect_right = 28, rect_bottom = 1 \<rparr>)"
    by code_simp
  have e: "scan_inward borderThreshold_default img_strip
             (find_bbox borderThreshold_default img_strip) =
       \<lparr> edge_left = 10, edge_top = 0, edge_right = 20, edge_bottom = 1 \<rparr>"
    by code_simp
  have wh: "width img_strip = 30" "height img_strip = 1" by (simp_all add: img_strip_def)
  from autoCropLabel_padding[OF c] show ?thesis
    unfolding e wh by (simp add: c e detectCrop_def)
qed

text \<open>
  C8. For every image, threshold and ratio, \<open>autoCropLabel\<close> returns without an error:
  either \<open>NoCropNeeded\<close> (the input buffer itself) or a crop, whose rectangle is a valid,
  non-empty region of the image, so that the extraction cannot be rejected.
\<close>

theorem autoCropLabel_never_fails:
  "autoCropLabel img thr ratio = Inr NoCropNeeded
   \<or> (\<exists>r. autoCropLabel img thr ratio = Inr (Crop r)
          \<and> 0 \<le> rect_left r \<and> rect_left r < rect_right r \<and> rect_right r \<le> int (width img)
          \<and> 0 \<le> rect_top r \<and> rect_top r < rect_bottom r \<and> rect_bottom r \<le> int (height img))"
proof (cases "autoCropLabel img thr ratio = Inr NoCropNeeded")
  case True
  then show ?thesis by simp
next
  case False
  let ?b = "find_bbox thr img"
  let ?e = "scan_inward thr img ?b"
  from False have r: "autoCropLabel img thr ratio = Inr (Crop (expand img ?e))"
    and ne: "dark_pixels thr img \<noteq> []"
    by (auto simp: autoCropLabel_cases split: if_splits)
  from ne have "found ?b" by (simp add: find_bbox_found)
  note box = find_bbox_box[OF this]
  from box scan_inward_inside[of ?b thr img]
  have "edge_left ?e < edge_right ?e" "edge_right ?e \<le> width img"
    "edge_top ?e < edge_bottom ?e" "edge_bottom ?e \<le> height img" by auto
  then have "0 \<le> rect_left (expand img ?e) \<and> rect_left (expand img ?e) < rect_right (expand img ?e)
      \<and> rect_right (expand img ?e) \<le> int (width img)
      \<and> 0 \<le> rect_top (expand img ?e) \<and> rect_top (expand img ?e) < rect_bottom (expand img ?e)
      \<and> rect_bottom (expand img ?e) \<le> int (height img)"
    by (simp add: expand_def pad_def)
  with r show ?thesis by blast
qed

text \<open>The image of two columns and twelve rows is cropped, within its 2 by 12 pixels.\<close>

theorem autoCropLabel_never_fails_witness:
  "\<exists>r. detectCrop img_rows = Inr (Crop r)
      \<and> 0 \<le> rect_left r \<and> rect_left r < rect_right r \<and> rect_right r \<le> 2
      \<and> 0 \<le> rect_top r \<and> rect_top r < rect_bottom r \<and> rect_bottom r \<le> 12"
proof -
  have "autoCropLabel img_rows 80 (5 / 100) \<noteq> Inr NoCropNeeded" by code_simp
  moreover have "width img_rows = 2" "height img_rows = 12" by (simp_all add: img_rows_def)
  ultimately show ?thesis
    using autoCropLabel_never_fails[of img_rows 80 "5 / 100"]
    by (simp add: detectCrop_def borderThreshold_default_def minAreaRatio_default_def)
qed

subsection \<open>Auto-crop: the luminance of the Swift port\<close>

text \<open>
  \<open>220 * 299\<close> exceeds \<open>65535\<close>: the Swift port traps on every pixel whose red byte is
  220 or more, a white pixel among them.
\<close>

lemma brightness_traps:
  assumes "220 \<le> unat r"
  shows "brightness r g b = None"
proof -
  have "unat r < 2 ^ 16"
    using unsigned_less[of r, where 'a = nat] by simp
  then have "unat (ucast r :: 16 word) = unat r"
    by (simp add: unsigned_ucast_eq take_bit_nat_eq_self)
  moreover have "unat (299 :: 16 word) = 299" by simp
  moreover have "2 ^ 16 \<le> unat r * 299"
  proof -
    have "(2 :: nat) ^ 16 \<le> 220 * 299" by simp
    also have "\<dots> \<le> unat r * 299" using assms by simp
    finally show ?thesis .
  qed
  ultimately have "u16_mul (ucast r) 299 = None" by (simp add: u16_mul_def)
  then show ?thesis by (simp add: brightness_def)
qed

lemma brightness_white: "brightness 255 255 255 = None"
  by (rule brightness_traps) simp

subsection \<open>Auto-crop: the scan against the specification's reading\<close>

text \<open>
  Counted in steps from its edge, the scan from the top and the scan from the left look
  at the same lines as the specification's scan, \<open>scan_limit\<close> of them at most. The scans
  from the bottom and from the right stop one step earlier: they look at
  \<open>scan_limit - 1\<close> lines at most.
\<close>

lemma find_map_index:
  "find P (map f xs) = map_option f (find (\<lambda>k. P (f k)) xs)"
  by (induction xs) simp_all

lemma upt_as_steps: "[a ..< a + n] = map (\<lambda>k. a + k) [0 ..< n]"
  by (simp add: list_eq_iff_nth_eq)

lemma rev_upt_as_steps:
  assumes "n \<le> c"
  shows "rev [Suc (c - n) ..< c] = map (\<lambda>k. c - 1 - k) [0 ..< n - 1]"
proof (rule nth_equalityI)
  show len: "length (rev [Suc (c - n) ..< c]) = length (map (\<lambda>k. c - 1 - k) [0 ..< n - 1])"
    using assms by simp
  fix i
  assume "i < length (rev [Suc (c - n) ..< c])"
  then have i: "i < n - 1" using len by simp
  then show "rev [Suc (c - n) ..< c] ! i = map (\<lambda>k. c - 1 - k) [0 ..< n - 1] ! i"
    using assms by (simp add: rev_nth)
qed

lemma scan_inward_near_edges:
  "edge_top (scan_inward thr img b) = edge_top (spec_scan_inward thr img b)
   \<and> edge_left (scan_inward thr img b) = edge_left (spec_scan_inward thr img b)"
  by (simp add: scan_inward_def spec_scan_inward_def Let_def scan_limit_def edgeScanLimit_def
        upt_as_steps find_map_index split: option.splits)

lemma scan_down_as_steps:
  assumes "n \<le> c"
  shows "(case find P (rev [Suc (c - n) ..< c]) of Some y \<Rightarrow> y + 1 | None \<Rightarrow> c) =
         (case find (\<lambda>k. P (c - 1 - k)) [0 ..< n - 1] of Some k \<Rightarrow> c - k | None \<Rightarrow> c)"
proof (cases "find (\<lambda>k. P (c - 1 - k)) [0 ..< n - 1]")
  case None
  then show ?thesis by (simp add: rev_upt_as_steps[OF assms] find_map_index)
next
  case (Some k)
  then have "k \<in> set [0 ..< n - 1]" unfolding find_Some_iff by (metis nth_mem)
  then have "k < n - 1" by simp
  with assms have "c - 1 - k + 1 = c - k" by simp
  with Some show ?thesis by (simp add: rev_upt_as_steps[OF assms] find_map_index)
qed

lemma scan_inward_far_edges:
  "edge_bottom (scan_inward thr img b) =
           (case find (\<lambda>k. \<not> rowIsBorder thr img (by1 b - 1 - k) (bx0 b) (bx1 b))
                   [0 ..< scan_limit (by1 b - by0 b) - 1] of
              Some k \<Rightarrow> by1 b - k | None \<Rightarrow> by1 b)
       \<and> edge_right (scan_inward thr img b) =
           (case find (\<lambda>k. \<not> colIsBorder thr img (bx1 b - 1 - k) (by0 b) (by1 b))
                   [0 ..< scan_limit (bx1 b - bx0 b) - 1] of
              Some k \<Rightarrow> bx1 b - k | None \<Rightarrow> bx1 b)"
proof -
  have h: "scan_limit (by1 b - by0 b) \<le> by1 b" and w: "scan_limit (bx1 b - bx0 b) \<le> bx1 b"
    by (simp_all add: scan_limit_def)
  show ?thesis
    by (simp add: scan_inward_def Let_def scan_down_as_steps[OF h] scan_down_as_steps[OF w])
qed

text \<open>
  C1. The scan is to go up to \<open>min(floor(box / 2), 100)\<close> steps in from each of the four
  edges and to stop at the first line that is not a border line. On the image of two
  columns and twelve rows (rows 0 and 3 black) the box is rows 0 to 4, so the limit is 2
  steps: from the bottom, row 3 is a border line and row 2 is not, and the bottom edge
  is to move to 3. The loop from the bottom runs only while \<open>y > by1 - scanH\<close>, looks
  at row 3 alone and leaves the bottom edge at 4, where the loop from the top does take
  both of its steps (the top edge moves to 1). The crop therefore reaches row 12, not 11.
\<close>

theorem scan_inward_bottom_one_short:
  "find_bbox 80 img_rows = \<lparr> bx0 = 0, by0 = 0, bx1 = 2, by1 = 4, found = True \<rparr>
   \<and> scan_limit (4 - 0) = 2
   \<and> rowIsBorder 80 img_rows 3 0 2
   \<and> \<not> rowIsBorder 80 img_rows 2 0 2
   \<and> scan_inward 80 img_rows (find_bbox 80 img_rows) =
       \<lparr> edge_left = 0, edge_top = 1, edge_right = 2, edge_bottom = 4 \<rparr>
   \<and> spec_scan_inward 80 img_rows (find_bbox 80 img_rows) =
       \<lparr> edge_left = 0, edge_top = 1, edge_right = 2, edge_bottom = 3 \<rparr>
   \<and> detectCrop img_rows =
       Inr (Crop \<lparr> rect_left = 0, rect_top = 0, rect_right = 2, rect_bottom = 12 \<rparr>)
   \<and> expand img_rows (spec_scan_inward 80 img_rows (find_bbox 80 img_rows)) =
       \<lparr> rect_left = 0, rect_top = 0, rect_right = 2, rect_bottom = 11 \<rparr>"
  by (intro conjI; code_simp)

subsection \<open>Entry points: the label size key\<close>

text \<open>
  A key that is neither in the catalogue nor the name of a member of \<open>Object.prototype\<close>
  falls back to 4 by 6; the name of such a member selects the inherited member, which
  is not a size. No key selects a size outside the catalogue.
\<close>

lemma label_size_for_fallback:
  assumes "key \<notin> {''4x6'', ''4x8'', ''2x7'', ''letter''}"
      and "key \<notin> set Object_prototype_members"
  shows "label_size_for key = Own (Num 4, Num 6)"
  using assms by (simp add: label_size_for_def js_get_def LABEL_SIZES_def DEFAULT_LABEL_SIZE_def)

lemma label_size_for_inherited:
  assumes "key \<in> set Object_prototype_members"
  shows "label_size_for key = Inherited"
proof -
  have "map_of LABEL_SIZES key = None"
    using assms by (auto simp: LABEL_SIZES_def Object_prototype_members_def)
  with assms show ?thesis by (simp add: label_size_for_def js_get_def)
qed

lemma label_size_for_catalog:
  "label_size_for key \<in> {Own (Num 4, Num 6), Own (Num 4, Num 8), Own (Num 2, Num 7),
      Own (Num (17 / 2), Num 11), Inherited}"
  by (simp add: label_size_for_def js_get_def LABEL_SIZES_def DEFAULT_LABEL_SIZE_def)

text \<open>
  C9. Every key outside the catalogue is to fall back to 4 by 6 without a failure. The
  key \<open>constructor\<close> is outside the catalogue, but \<open>LABEL_SIZES["constructor"]\<close> is the
  inherited \<open>Object\<close> function, not \<open>undefined\<close>, so \<open>??\<close> keeps it: the target
  dimensions are \<open>NaN\<close> and both entry points fail in the resize step, on an image that
  they process with the key \<open>5x5\<close> exactly as with \<open>4x6\<close>.
\<close>

theorem labelSize_constructor_fails:
  "''constructor'' \<notin> {''4x6'', ''4x8'', ''2x7'', ''letter''}
   \<and> label_size_for ''constructor'' = Inherited
   \<and> resizeLabelFromBuffers (\<lambda>b d. Inr img_white) (\<lambda>b. Inr img_white)
         (\<lambda>b w h f. None) Inr
         () ''.png'' None None DEFAULT_DPI Fit True ''constructor'' =
       Inl (SharpInvalidParameter ''width'' NaN)
   \<and> resizeLabel (\<lambda>p. True) (\<lambda>p. Inr img_white) (\<lambda>p. Inr img_white)
         (\<lambda>b w h f. None) Inr
         ''label.png'' None None DEFAULT_DPI Fit True ''constructor'' =
       Inl (SharpInvalidParameter ''width'' NaN)
   \<and> resizeLabelFromBuffers (\<lambda>b d. Inr img_white) (\<lambda>b. Inr img_white)
         (\<lambda>b w h f. None) Inr
         () ''.png'' None None DEFAULT_DPI Fit True ''5x5'' =
       resizeLabelFromBuffers (\<lambda>b d. Inr img_white) (\<lambda>b. Inr img_white)
         (\<lambda>b w h f. None) Inr
         () ''.png'' None None DEFAULT_DPI Fit True ''4x6''"
  by (intro conjI; code_simp)

end
